theory Spec2Isabelle
  imports Complex_Main "HOL-Library.Log_Nat"
begin

section \<open>JavaScript numbers\<close>

text \<open>
  A JavaScript number is an IEEE-754 binary64 value: a finite value, given by the rational
  it denotes (\<open>Fin 0\<close> is \<open>+0\<close>), the negative zero, the two infinities, or NaN.
  The arithmetic rounds to nearest, ties to even: the result of an operation is the exact
  result rounded to 53 significant bits, with exponents from \<open>-1022\<close> (below it the
  spacing stays \<open>2^-1074\<close>) and overflow to an infinity from \<open>2^1024\<close> on.
  The values of a program are the binary64 values only: \<open>Fin q\<close> with \<open>q\<close> a
  rational that \<open>is_double\<close> below recognises.
\<close>

datatype number = Fin rat | NegZero | PosInf | NegInf | NaN

definition pow2 :: "int \<Rightarrow> rat" where
  "pow2 e = (if 0 \<le> e then 2 ^ nat e else 1 / 2 ^ nat (- e))"

text \<open>The exponent of a positive rational: the greatest \<open>e\<close> with \<open>2^e \<le> a\<close>.\<close>

definition floor_log2 :: "rat \<Rightarrow> int" where
  "floor_log2 a = (if 1 \<le> a then bitlen \<lfloor>a\<rfloor> - 1 else - bitlen (\<lceil>1 / a\<rceil> - 1))"

text \<open>The spacing of the binary64 values around a positive rational.\<close>

definition ulp_of :: "rat \<Rightarrow> rat" where
  "ulp_of a = pow2 (max (floor_log2 a) (- 1022) - 52)"

definition round_half_even :: "rat \<Rightarrow> int" where
  "round_half_even m =
     (let f = \<lfloor>m\<rfloor>; d = m - of_int f
      in if d < 1 / 2 then f
         else if 1 / 2 < d then f + 1
         else if even f then f else f + 1)"

text \<open>The binary64 value of a rational other than 0.\<close>

definition round64 :: "rat \<Rightarrow> number" where
  "round64 q =
     (let a = \<bar>q\<bar>; u = ulp_of a; n = round_half_even (a / u); r = of_int n * u
      in if pow2 1024 \<le> r then (if q < 0 then NegInf else PosInf)
         else if n = 0 then (if q < 0 then NegZero else Fin 0)
         else Fin (if q < 0 then - r else r))"

definition negative :: "number \<Rightarrow> bool" where
  "negative x =
     (case x of Fin q \<Rightarrow> q < 0 | NegZero \<Rightarrow> True | NegInf \<Rightarrow> True
      | PosInf \<Rightarrow> False | NaN \<Rightarrow> False)"

definition is_zero :: "number \<Rightarrow> bool" where
  "is_zero x = (x = Fin 0 \<or> x = NegZero)"

definition is_inf :: "number \<Rightarrow> bool" where
  "is_inf x = (x = PosInf \<or> x = NegInf)"

definition signed_zero :: "bool \<Rightarrow> number" where
  "signed_zero neg = (if neg then NegZero else Fin 0)"

definition signed_inf :: "bool \<Rightarrow> number" where
  "signed_inf neg = (if neg then NegInf else PosInf)"

text \<open>\<^verbatim>\<open>x + y\<close> on numbers.\<close>

fun num_add :: "number \<Rightarrow> number \<Rightarrow> number" where
  "num_add NaN y = NaN"
| "num_add x NaN = NaN"
| "num_add PosInf NegInf = NaN"
| "num_add NegInf PosInf = NaN"
| "num_add PosInf y = PosInf"
| "num_add NegInf y = NegInf"
| "num_add x PosInf = PosInf"
| "num_add x NegInf = NegInf"
| "num_add NegZero y = y"
| "num_add x NegZero = x"
| "num_add (Fin p) (Fin q) = (if p + q = 0 then Fin 0 else round64 (p + q))"

text \<open>\<^verbatim>\<open>x / y\<close> on numbers.\<close>

definition num_div :: "number \<Rightarrow> number \<Rightarrow> number" where
  "num_div x y =
     (if x = NaN \<or> y = NaN then NaN
      else if is_inf x \<and> is_inf y then NaN
      else if is_zero x \<and> is_zero y then NaN
      else if is_inf x \<or> is_zero y then signed_inf (negative x \<noteq> negative y)
      else if is_zero x \<or> is_inf y then signed_zero (negative x \<noteq> negative y)
      else (case (x, y) of (Fin p, Fin q) \<Rightarrow> round64 (p / q) | _ \<Rightarrow> NaN))"

text \<open>
  The length of an array as a number. A length is an integer below \<open>2^32\<close>, which has
  a binary64 value of its own.
\<close>

definition length_js :: "'a list \<Rightarrow> number" where
  "length_js xs = Fin (of_nat (length xs))"

text \<open>
  A rational that is a binary64 value: 0, or a rational that rounding leaves as it is,
  because it lies below \<open>2^1024\<close> in absolute value and is a multiple of the spacing
  around it. \<open>sums_exact s qs\<close> holds when adding the rationals \<open>qs\<close> to \<open>s\<close>
  one after the other never leaves the binary64 values.
\<close>

definition representable :: "rat \<Rightarrow> bool" where
  "representable q =
     (q \<noteq> 0 \<and> \<bar>q\<bar> < pow2 1024 \<and> of_int \<lfloor>\<bar>q\<bar> / ulp_of \<bar>q\<bar>\<rfloor> = \<bar>q\<bar> / ulp_of \<bar>q\<bar>)"

definition is_double :: "rat \<Rightarrow> bool" where
  "is_double q = (q = 0 \<or> representable q)"

fun sums_exact :: "rat \<Rightarrow> rat list \<Rightarrow> bool" where
  "sums_exact s [] = True"
| "sums_exact s (q # qs) = (is_double (s + q) \<and> sums_exact (s + q) qs)"

section \<open>Data model\<close>

text \<open>
  Modelled from the spec: the type declarations of \<^verbatim>\<open>@/models/Activity\<close>
  (Position, Rating, Comment, Participant, WeAllExplainActivity) are not among the
  sources. The records below carry the fields that the handlers of the activity page
  and the projections of the results view read, with the types the data model of the
  specification gives them. Coordinates and axis bounds are JavaScript numbers; vote counts
  and timestamps, on which no arithmetic is done, are integers. A field whose source name is a keyword
  or a constant of HOL, or is shared by two records, is prefixed with the name of its
  record (\<^verbatim>\<open>comment.userId\<close> is \<open>comment_userId\<close>).
\<close>

record Position =
  pos_x :: number
  pos_y :: number

record Rating =
  rating_userId :: string
  position :: Position

record Comment =
  comment_id :: string
  comment_userId :: string
  username :: string
  comment_text :: string
  voteCount :: int
  timestamp :: int

record Participant =
  participant_id :: string
  participant_username :: string

record Axis =
  axis_label :: string
  axis_min :: number
  axis_max :: number

datatype Status = Active | Completed

record Activity =
  activity_id :: string
  title :: string
  mapQuestion :: string
  commentQuestion :: string
  xAxis :: Axis
  yAxis :: Axis
  status :: Status
  participants :: "Participant list"
  ratings :: "Rating list"
  comments :: "Comment list"

text \<open>
  The part of the state of the component \<^verbatim>\<open>ActivityPage\<close> that the WebSocket
  listeners read and write: the activity (\<^verbatim>\<open>null\<close> until the snapshot is loaded),
  the identity of the user, and the user's own rating and comment.
\<close>

record PageState =
  activity :: "Activity option"
  userId :: string
  userRating :: "Rating option"
  userComment :: "Comment option"

text \<open>The five events of the push channel, each with its payload.\<close>

datatype Event =
    RatingAdded Rating
  | CommentAdded Comment
  | CommentVoted Comment
  | ParticipantJoined Participant
  | ParticipantLeft string

section \<open>The WebSocket listeners of the activity page\<close>

text \<open>
  \<^verbatim>\<open>Array.prototype.findIndex\<close>: the index of the first element that satisfies the
  predicate, scanning from index 0, and \<open>-1\<close> when there is none.
\<close>

fun findIndexFrom :: "('a \<Rightarrow> bool) \<Rightarrow> 'a list \<Rightarrow> int \<Rightarrow> int" where
  "findIndexFrom P [] k = - 1"
| "findIndexFrom P (x # xs) k = (if P x then k else findIndexFrom P xs (k + 1))"

definition findIndex :: "('a \<Rightarrow> bool) \<Rightarrow> 'a list \<Rightarrow> int" where
  "findIndex P xs = findIndexFrom P xs 0"

text \<open>
  Each listener calls \<^verbatim>\<open>setActivity\<close> with an updater from the previous activity to
  the next one. The updaters are the apply-operations of the reconciliation core.
\<close>

definition rating_added_update :: "Rating \<Rightarrow> Activity option \<Rightarrow> Activity option" where
  "rating_added_update rating prev =
     (case prev of
        None \<Rightarrow> None
      | Some p \<Rightarrow>
          (let updatedRatings =
                 filter (\<lambda>r. rating_userId r \<noteq> rating_userId rating) (ratings p) @ [rating]
           in Some (p\<lparr>ratings := updatedRatings\<rparr>)))"

definition comment_added_update :: "Comment \<Rightarrow> Activity option \<Rightarrow> Activity option" where
  "comment_added_update comment prev =
     (case prev of
        None \<Rightarrow> None
      | Some p \<Rightarrow>
          (let existingCommentIndex =
                 findIndex (\<lambda>c. comment_userId c = comment_userId comment \<and>
                                 comment_text c = comment_text comment) (comments p)
           in if existingCommentIndex \<ge> 0
              then (let updatedComments = (comments p)[nat existingCommentIndex := comment]
                    in Some (p\<lparr>comments := updatedComments\<rparr>))
              else (let updatedComments =
                          filter (\<lambda>c. comment_userId c \<noteq> comment_userId comment) (comments p)
                            @ [comment]
                    in Some (p\<lparr>comments := updatedComments\<rparr>))))"

definition comment_voted_update :: "Comment \<Rightarrow> Activity option \<Rightarrow> Activity option" where
  "comment_voted_update comment prev =
     (case prev of
        None \<Rightarrow> prev
      | Some p \<Rightarrow>
          (let updatedComments =
                 map (\<lambda>c. if comment_id c = comment_id comment then comment else c) (comments p)
           in Some (p\<lparr>comments := updatedComments\<rparr>)))"

definition participant_joined_update :: "Participant \<Rightarrow> Activity option \<Rightarrow> Activity option" where
  "participant_joined_update participant prev =
     (case prev of
        None \<Rightarrow> None
      | Some p \<Rightarrow>
          (let updatedParticipants =
                 filter (\<lambda>q. participant_id q \<noteq> participant_id participant) (participants p)
                   @ [participant]
           in Some (p\<lparr>participants := updatedParticipants\<rparr>)))"

definition participant_left_update :: "string \<Rightarrow> Activity option \<Rightarrow> Activity option" where
  "participant_left_update participantId prev =
     (case prev of
        None \<Rightarrow> None
      | Some p \<Rightarrow>
          Some (p\<lparr>participants :=
                     filter (\<lambda>q. participant_id q \<noteq> participantId) (participants p)\<rparr>))"

text \<open>
  The listeners themselves. After the activity is updated, the listeners of
  \<^verbatim>\<open>rating_added\<close> and \<^verbatim>\<open>comment_added\<close> also record the payload as the user's own
  rating or comment when it carries the user's id.
\<close>

definition on_rating_added :: "Rating \<Rightarrow> PageState \<Rightarrow> PageState" where
  "on_rating_added rating s =
     (let s1 = s\<lparr>activity := rating_added_update rating (activity s)\<rparr>
      in if rating_userId rating = userId s then s1\<lparr>userRating := Some rating\<rparr> else s1)"

definition on_comment_added :: "Comment \<Rightarrow> PageState \<Rightarrow> PageState" where
  "on_comment_added comment s =
     (let s1 = s\<lparr>activity := comment_added_update comment (activity s)\<rparr>
      in if comment_userId comment = userId s then s1\<lparr>userComment := Some comment\<rparr> else s1)"

definition on_comment_voted :: "Comment \<Rightarrow> PageState \<Rightarrow> PageState" where
  "on_comment_voted comment s = s\<lparr>activity := comment_voted_update comment (activity s)\<rparr>"

definition on_participant_joined :: "Participant \<Rightarrow> PageState \<Rightarrow> PageState" where
  "on_participant_joined participant s =
     s\<lparr>activity := participant_joined_update participant (activity s)\<rparr>"

definition on_participant_left :: "string \<Rightarrow> PageState \<Rightarrow> PageState" where
  "on_participant_left participantId s =
     s\<lparr>activity := participant_left_update participantId (activity s)\<rparr>"

text \<open>The dispatch of the channel: one listener for each event name.\<close>

fun handle_event :: "Event \<Rightarrow> PageState \<Rightarrow> PageState" where
  "handle_event (RatingAdded rating) s = on_rating_added rating s"
| "handle_event (CommentAdded comment) s = on_comment_added comment s"
| "handle_event (CommentVoted comment) s = on_comment_voted comment s"
| "handle_event (ParticipantJoined participant) s = on_participant_joined participant s"
| "handle_event (ParticipantLeft participantId) s = on_participant_left participantId s"

text \<open>Events applied in delivery order.\<close>

definition handle_events :: "Event list \<Rightarrow> PageState \<Rightarrow> PageState" where
  "handle_events evs s = foldl (\<lambda>st ev. handle_event ev st) s evs"

section \<open>The projections of the results view\<close>

record Stats =
  totalParticipants :: nat
  totalRatings :: nat
  totalComments :: nat
  averagePosition :: "Position option"

text \<open>
  \<^verbatim>\<open>stats\<close> of \<^verbatim>\<open>ResultsView\<close>. \<^verbatim>\<open>reduce\<close> is a left fold from the initial value 0,
  with the addition of numbers; the sum is divided, as a number, by the length of the
  array. The average is \<^verbatim>\<open>null\<close> when there is no rating.
\<close>

definition stats :: "Activity \<Rightarrow> Stats" where
  "stats a =
     \<lparr> totalParticipants = length (participants a),
       totalRatings = length (ratings a),
       totalComments = length (comments a),
       averagePosition =
         (if length (ratings a) > 0
          then Some \<lparr> pos_x = num_div
                                (foldl (\<lambda>sum r. num_add sum (pos_x (position r))) (Fin 0) (ratings a))
                                (length_js (ratings a)),
                      pos_y = num_div
                                (foldl (\<lambda>sum r. num_add sum (pos_y (position r))) (Fin 0) (ratings a))
                                (length_js (ratings a)) \<rparr>
          else None) \<rparr>"

text \<open>
  The selection state of \<^verbatim>\<open>ResultsView\<close> that the handlers of the map dots read and
  write.
\<close>

record ViewState =
  selectedCommentId :: "string option"
  mobilePopupComment :: "string option"
  visibleCommentIds :: "string list"

text \<open>
  \<^verbatim>\<open>Array.prototype.find\<close> calls the predicate on the elements in order, from index 0,
  until it holds. \<open>find_scan\<close> returns the element found, if any, together with the
  number of calls of the predicate, that is, of elements inspected.
\<close>

fun find_scan :: "('a \<Rightarrow> bool) \<Rightarrow> 'a list \<Rightarrow> 'a option \<times> nat" where
  "find_scan P [] = (None, 0)"
| "find_scan P (x # xs) =
     (if P x then (Some x, 1)
      else (let (r, n) = find_scan P xs in (r, n + 1)))"

definition find_js :: "('a \<Rightarrow> bool) \<Rightarrow> 'a list \<Rightarrow> 'a option" where
  "find_js P xs = fst (find_scan P xs)"

definition includes_js :: "'a list \<Rightarrow> 'a \<Rightarrow> bool" where
  "includes_js xs v = List.member xs v"

definition handleMapDotClick :: "Activity \<Rightarrow> string \<Rightarrow> ViewState \<Rightarrow> ViewState" where
  "handleMapDotClick a uid v =
     (case find_js (\<lambda>c. comment_userId c = uid) (comments a) of
        None \<Rightarrow> v
      | Some comment \<Rightarrow>
          if includes_js (visibleCommentIds v) (comment_id comment)
          then v\<lparr>selectedCommentId := Some (comment_id comment)\<rparr>
          else v)"

definition handleMobileMapDotTap :: "Activity \<Rightarrow> string \<Rightarrow> ViewState \<Rightarrow> ViewState" where
  "handleMobileMapDotTap a uid v =
     (case find_js (\<lambda>c. comment_userId c = uid) (comments a) of
        None \<Rightarrow> v
      | Some comment \<Rightarrow>
          if includes_js (visibleCommentIds v) (comment_id comment)
          then v\<lparr>mobilePopupComment := Some (comment_id comment)\<rparr>
          else v)"

text \<open>
  The number of comments that the \<^verbatim>\<open>find\<close> of a map-dot handler inspects to resolve
  a user id.
\<close>

definition handleMapDotClick_scanned :: "Activity \<Rightarrow> string \<Rightarrow> nat" where
  "handleMapDotClick_scanned a uid = snd (find_scan (\<lambda>c. comment_userId c = uid) (comments a))"

section \<open>The middleware\<close>

text \<open>
  What the middleware reads of a request: the \<^verbatim>\<open>host\<close> header (\<^verbatim>\<open>null\<close> when
  absent) and the path of the URL. The environment variable \<^verbatim>\<open>ADMIN_SUBDOMAIN\<close> is a
  parameter, \<open>None\<close> when it is not set.
\<close>

record Request =
  host :: "string option"
  pathname :: string

datatype Response =
    Redirect string
  | Status nat
  | Next

text \<open>\<^verbatim>\<open>v || d\<close> on a string that may be null: \<open>d\<close> when \<open>v\<close> is null or empty.\<close>

definition or_default :: "string option \<Rightarrow> string \<Rightarrow> string" where
  "or_default v d = (case v of None \<Rightarrow> d | Some s \<Rightarrow> if s = [] then d else s)"

text \<open>
  \<^verbatim>\<open>String.prototype.split\<close> with a separator of one character: the pieces between the
  separators, one piece (the empty string) for the empty string.
\<close>

fun split_js :: "char \<Rightarrow> string \<Rightarrow> string list" where
  "split_js sep [] = [[]]"
| "split_js sep (c # cs) =
     (if c = sep then [] # split_js sep cs
      else (case split_js sep cs of
              [] \<Rightarrow> [[c]]
            | w # ws \<Rightarrow> (c # w) # ws))"

definition startsWith :: "string \<Rightarrow> string \<Rightarrow> bool" where
  "startsWith s p = (take (length p) s = p)"

fun includes_str :: "string \<Rightarrow> string \<Rightarrow> bool" where
  "includes_str [] sub = (sub = [])"
| "includes_str (c # cs) sub = (startsWith (c # cs) sub \<or> includes_str cs sub)"

definition hostname_of :: "Request \<Rightarrow> string" where
  "hostname_of req = or_default (host req) []"

text \<open>\<^verbatim>\<open>hostname.split('.')[0]\<close>; an index out of range reads \<^verbatim>\<open>undefined\<close>.\<close>

definition subdomain_of :: "Request \<Rightarrow> string option" where
  "subdomain_of req =
     (case split_js (CHR ''.'') (hostname_of req) of [] \<Rightarrow> None | w # ws \<Rightarrow> Some w)"

definition adminSubdomain :: "string option \<Rightarrow> string" where
  "adminSubdomain env = or_default env ''admin''"

definition isAdminRoute :: "Request \<Rightarrow> bool" where
  "isAdminRoute req = startsWith (pathname req) ''/admin''"

definition isLocalAdmin :: "Request \<Rightarrow> bool" where
  "isLocalAdmin req =
     (hostname_of req = ''admin.localhost:3000'' \<or> hostname_of req = ''admin.localhost'')"

definition isAdminSubdomain :: "string option \<Rightarrow> Request \<Rightarrow> bool" where
  "isAdminSubdomain env req =
     (subdomain_of req = Some (adminSubdomain env) \<or> isLocalAdmin req)"

definition isLocalhost :: "Request \<Rightarrow> bool" where
  "isLocalhost req =
     (includes_str (hostname_of req) ''localhost'' \<and> \<not> includes_str (hostname_of req) ''admin.'')"

definition middleware :: "string option \<Rightarrow> Request \<Rightarrow> Response" where
  "middleware env req =
     (if isAdminSubdomain env req \<and> \<not> isAdminRoute req
      then Redirect (''/admin'' @ pathname req)
      else if isAdminRoute req \<and> \<not> isAdminSubdomain env req \<and> \<not> isLocalhost req
      then Status 404
      else Next)"

section \<open>Invariants and sample data\<close>

text \<open>
  The invariant of the data model: at most one rating and at most one comment for each
  user id. A state with no activity loaded satisfies it.
\<close>

definition one_per_user :: "Activity \<Rightarrow> bool" where
  "one_per_user a =
     (distinct (map rating_userId (ratings a)) \<and> distinct (map comment_userId (comments a)))"

definition state_inv :: "PageState \<Rightarrow> bool" where
  "state_inv s = (case activity s of None \<Rightarrow> True | Some a \<Rightarrow> one_per_user a)"

text \<open>
  A \<^verbatim>\<open>comment_voted\<close> event keeps the author: every stored comment that has the id of
  the incoming comment has its user id too. It holds of every other event.
\<close>

definition vote_keeps_user :: "Event \<Rightarrow> PageState \<Rightarrow> bool" where
  "vote_keeps_user ev s =
     (case ev of
        CommentVoted c \<Rightarrow>
          (case activity s of
             None \<Rightarrow> True
           | Some a \<Rightarrow>
               list_all (\<lambda>e. comment_id e = comment_id c \<longrightarrow> comment_userId e = comment_userId c)
                 (comments a))
      | _ \<Rightarrow> True)"

text \<open>Sample values, for the concrete instances of the theorems below.\<close>

definition sample_comment :: "string \<Rightarrow> string \<Rightarrow> string \<Rightarrow> int \<Rightarrow> Comment" where
  "sample_comment cid uid txt votes =
     \<lparr> comment_id = cid, comment_userId = uid, username = uid, comment_text = txt,
       voteCount = votes, timestamp = 0 \<rparr>"

definition sample_rating :: "string \<Rightarrow> rat \<Rightarrow> rat \<Rightarrow> Rating" where
  "sample_rating uid px py =
     \<lparr> rating_userId = uid, position = \<lparr> pos_x = Fin px, pos_y = Fin py \<rparr> \<rparr>"

definition sample_participant :: "string \<Rightarrow> Participant" where
  "sample_participant pid = \<lparr> participant_id = pid, participant_username = pid \<rparr>"

definition sample_axis :: Axis where
  "sample_axis = \<lparr> axis_label = ''axis'', axis_min = Fin 0, axis_max = Fin 1 \<rparr>"

definition sample_activity :: "Participant list \<Rightarrow> Rating list \<Rightarrow> Comment list \<Rightarrow> Activity" where
  "sample_activity ps rs cs =
     \<lparr> activity_id = ''act'', title = ''t'', mapQuestion = ''m'', commentQuestion = ''q'',
       xAxis = sample_axis, yAxis = sample_axis, status = Active,
       participants = ps, ratings = rs, comments = cs \<rparr>"

definition sample_state :: "Activity option \<Rightarrow> PageState" where
  "sample_state act =
     \<lparr> activity = act, userId = ''me'', userRating = None, userComment = None \<rparr>"

definition sample_view :: ViewState where
  "sample_view = \<lparr> selectedCommentId = None, mobilePopupComment = None, visibleCommentIds = [] \<rparr>"

text \<open>The binary64 value nearest to \<open>0.1\<close>.\<close>

definition double_tenth :: rat where
  "double_tenth = 3602879701896397 / 36028797018963968"

text \<open>\<open>n\<close> comments of other users, then the one comment of user \<open>u\<close>.\<close>

definition sample_many_comments :: "nat \<Rightarrow> Comment list" where
  "sample_many_comments n =
     replicate n (sample_comment ''c0'' ''other'' ''x'' 0) @ [sample_comment ''c1'' ''u'' ''hi'' 0]"

section \<open>Auxiliary lemmas\<close>

subsection \<open>The index of the first match\<close>

lemma findIndexFrom_notfound: "\<forall>x\<in>set xs. \<not> P x \<Longrightarrow> findIndexFrom P xs k = - 1"
  by (induction xs arbitrary: k) auto

lemma findIndexFrom_found:
  "\<exists>x\<in>set xs. P x \<Longrightarrow> findIndexFrom P xs k = k + int (length (takeWhile (\<lambda>x. \<not> P x) xs))"
proof (induction xs arbitrary: k)
  case Nil
  then show ?case by simp
next
  case (Cons y ys)
  show ?case
  proof (cases "P y")
    case True
    then show ?thesis by simp
  next
    case False
    with Cons.prems have "\<exists>x\<in>set ys. P x" by auto
    from Cons.IH [OF this, of "k + 1"] False show ?thesis by simp
  qed
qed

lemma findIndex_nonneg_iff: "0 \<le> findIndex P xs \<longleftrightarrow> (\<exists>x\<in>set xs. P x)"
proof (cases "\<exists>x\<in>set xs. P x")
  case True
  then show ?thesis by (simp add: findIndex_def findIndexFrom_found)
next
  case False
  then show ?thesis by (simp add: findIndex_def findIndexFrom_notfound)
qed

lemma takeWhile_not_first:
  "\<exists>x\<in>set xs. P x \<Longrightarrow>
     length (takeWhile (\<lambda>x. \<not> P x) xs) < length xs \<and>
     P (xs ! length (takeWhile (\<lambda>x. \<not> P x) xs)) \<and>
     (\<forall>j < length (takeWhile (\<lambda>x. \<not> P x) xs). \<not> P (xs ! j))"
proof (induction xs)
  case Nil
  then show ?case by simp
next
  case (Cons y ys)
  show ?case
  proof (cases "P y")
    case True
    then show ?thesis by simp
  next
    case False
    with Cons.prems have "\<exists>x\<in>set ys. P x" by auto
    from Cons.IH [OF this] False show ?thesis
      by (auto simp: nth_Cons split: nat.splits)
  qed
qed

lemma findIndex_first:
  assumes "\<exists>x\<in>set xs. P x"
  shows "nat (findIndex P xs) < length xs \<and> P (xs ! nat (findIndex P xs)) \<and>
         (\<forall>j < nat (findIndex P xs). \<not> P (xs ! j))"
proof -
  have eq: "nat (findIndex P xs) = length (takeWhile (\<lambda>x. \<not> P x) xs)"
    using assms by (simp add: findIndex_def findIndexFrom_found)
  show ?thesis unfolding eq by (rule takeWhile_not_first [OF assms])
qed

lemma findIndexFrom_eqI:
  "i < length xs \<Longrightarrow> P (xs ! i) \<Longrightarrow> \<forall>j<i. \<not> P (xs ! j) \<Longrightarrow> findIndexFrom P xs k = k + int i"
proof (induction xs arbitrary: i k)
  case Nil
  then show ?case by simp
next
  case (Cons x xs)
  show ?case
  proof (cases i)
    case 0
    with Cons.prems show ?thesis by simp
  next
    case (Suc n)
    have nx: "\<not> P x" using Cons.prems(3) Suc by auto
    have "n < length xs" "P (xs ! n)" using Cons.prems Suc by simp_all
    moreover have "\<forall>j<n. \<not> P (xs ! j)"
    proof (intro allI impI)
      fix j assume "j < n"
      then have "Suc j < i" using Suc by simp
      with Cons.prems(3) have "\<not> P ((x # xs) ! Suc j)" by blast
      then show "\<not> P (xs ! j)" by simp
    qed
    ultimately have "findIndexFrom P xs (k + 1) = k + 1 + int n"
      by (rule Cons.IH)
    with nx Suc show ?thesis by simp
  qed
qed

lemma findIndex_eqI:
  "i < length xs \<Longrightarrow> P (xs ! i) \<Longrightarrow> \<forall>j<i. \<not> P (xs ! j) \<Longrightarrow> findIndex P xs = int i"
  using findIndexFrom_eqI [of i xs P 0] by (simp add: findIndex_def)

subsection \<open>The updaters on a loaded activity\<close>

lemma activity_on_rating_added:
  "activity (on_rating_added r s) = rating_added_update r (activity s)"
  by (simp add: on_rating_added_def Let_def)

lemma rating_added_update_Some:
  "rating_added_update r (Some a) =
     Some (a\<lparr>ratings := filter (\<lambda>q. rating_userId q \<noteq> rating_userId r) (ratings a) @ [r]\<rparr>)"
  by (simp add: rating_added_update_def)

lemma rating_added_update_idem:
  "rating_added_update r (rating_added_update r prev) = rating_added_update r prev"
  by (cases prev) (simp_all add: rating_added_update_def)

lemma on_rating_added_idem:
  "on_rating_added r (on_rating_added r s) = on_rating_added r s"
  by (simp add: on_rating_added_def Let_def rating_added_update_idem)

lemma handle_events_snoc:
  "handle_events (evs @ [ev]) s = handle_event ev (handle_events evs s)"
  by (simp add: handle_events_def)

lemma ratings_same_user_last:
  assumes "activity s = Some a" and "rs \<noteq> []" and "\<forall>q\<in>set rs. rating_userId q = u"
  shows "\<exists>a'. activity (handle_events (map RatingAdded rs) s) = Some a' \<and>
           a' = a\<lparr>ratings := filter (\<lambda>q. rating_userId q \<noteq> u) (ratings a) @ [last rs]\<rparr>"
  using assms(2,3)
proof (induction rs rule: rev_induct)
  case Nil
  then show ?case by simp
next
  case (snoc r rs)
  have u: "rating_userId r = u" using snoc.prems by simp
  show ?case
  proof (cases "rs = []")
    case True
    then show ?thesis
      using assms(1) u
      by (simp add: handle_events_def activity_on_rating_added rating_added_update_Some)
  next
    case False
    with snoc obtain a' where a': "activity (handle_events (map RatingAdded rs) s) = Some a'"
      "a' = a\<lparr>ratings := filter (\<lambda>q. rating_userId q \<noteq> u) (ratings a) @ [last rs]\<rparr>"
      by auto
    have "rating_userId (last rs) = u" using snoc.prems False by simp
    then show ?thesis
      using a' u
      by (simp add: handle_events_snoc activity_on_rating_added rating_added_update_Some)
  qed
qed

lemma activity_on_comment_added:
  "activity (on_comment_added c s) = comment_added_update c (activity s)"
  by (simp add: on_comment_added_def Let_def)

lemma comment_added_update_Some:
  "comment_added_update c (Some a) =
     Some (a\<lparr>comments :=
       (if \<exists>e\<in>set (comments a). comment_userId e = comment_userId c \<and> comment_text e = comment_text c
        then (comments a)[nat (findIndex (\<lambda>e. comment_userId e = comment_userId c \<and>
                 comment_text e = comment_text c) (comments a)) := c]
        else filter (\<lambda>e. comment_userId e \<noteq> comment_userId c) (comments a) @ [c])\<rparr>)"
  unfolding comment_added_update_def Let_def
  by (auto simp: findIndex_nonneg_iff)

lemma comment_added_replace_branch:
  assumes "\<exists>e\<in>set cs. P e"
  shows "\<exists>i<length cs. P (cs ! i) \<and> (\<forall>j<i. \<not> P (cs ! j)) \<and>
           cs[nat (findIndex P cs) := c] = cs[i := c] \<and>
           length (cs[nat (findIndex P cs) := c]) = length cs \<and>
           cs[nat (findIndex P cs) := c] ! i = c \<and>
           (\<forall>j<length cs. j \<noteq> i \<longrightarrow> cs[nat (findIndex P cs) := c] ! j = cs ! j)"
proof -
  let ?i = "nat (findIndex P cs)"
  from findIndex_first [OF assms]
  have 1: "?i < length cs" and 2: "P (cs ! ?i)" and 3: "\<forall>j < ?i. \<not> P (cs ! j)"
    by simp_all
  have 4: "cs[?i := c] ! ?i = c" using 1 by simp
  have 5: "\<forall>j<length cs. j \<noteq> ?i \<longrightarrow> cs[?i := c] ! j = cs ! j" by simp
  have "?i < length cs \<and> (P (cs ! ?i) \<and> (\<forall>j< ?i. \<not> P (cs ! j)) \<and>
           cs[?i := c] = cs[?i := c] \<and>
           length (cs[?i := c]) = length cs \<and>
           cs[?i := c] ! ?i = c \<and>
           (\<forall>j<length cs. j \<noteq> ?i \<longrightarrow> cs[?i := c] ! j = cs ! j))"
    using 1 2 3 4 5 by simp
  then show ?thesis by (rule exI [of _ ?i])
qed

lemma comment_added_update_idem:
  "comment_added_update c (comment_added_update c prev) = comment_added_update c prev"
proof (cases prev)
  case None
  then show ?thesis by (simp add: comment_added_update_def)
next
  case (Some a)
  let ?P = "\<lambda>e. comment_userId e = comment_userId c \<and> comment_text e = comment_text c"
  show ?thesis
  proof (cases "\<exists>e\<in>set (comments a). ?P e")
    case True
    let ?i = "nat (findIndex ?P (comments a))"
    let ?cs' = "(comments a)[?i := c]"
    from findIndex_first [of "comments a" ?P, OF True]
    have 1: "?i < length (comments a)" and 3: "\<forall>j < ?i. \<not> ?P (comments a ! j)"
      by blast+
    have first: "comment_added_update c prev = Some (a\<lparr>comments := ?cs'\<rparr>)"
      using True unfolding Some by (simp only: comment_added_update_Some if_True)
    have ex': "\<exists>e\<in>set ?cs'. ?P e"
      using 1 by (metis (mono_tags, lifting) set_update_memI)
    have "findIndex ?P ?cs' = int ?i"
    proof (rule findIndex_eqI)
      show "?i < length ?cs'" using 1 by simp
      show "?P (?cs' ! ?i)" using 1 by simp
      show "\<forall>j < ?i. \<not> ?P (?cs' ! j)" using 3 by simp
    qed
    then have "?cs'[nat (findIndex ?P ?cs') := c] = ?cs'" by simp
    then have "comment_added_update c (Some (a\<lparr>comments := ?cs'\<rparr>)) = Some (a\<lparr>comments := ?cs'\<rparr>)"
      using ex' by (simp only: comment_added_update_Some) simp
    then show ?thesis unfolding first .
  next
    case False
    let ?f = "filter (\<lambda>e. comment_userId e \<noteq> comment_userId c) (comments a)"
    let ?cs' = "?f @ [c]"
    have first: "comment_added_update c prev = Some (a\<lparr>comments := ?cs'\<rparr>)"
      using False unfolding Some by (simp only: comment_added_update_Some if_False)
    have ex': "\<exists>e\<in>set ?cs'. ?P e" by simp
    have "findIndex ?P ?cs' = int (length ?f)"
    proof (rule findIndex_eqI)
      show "length ?f < length ?cs'" by simp
      show "?P (?cs' ! length ?f)" by simp
      show "\<forall>j < length ?f. \<not> ?P (?cs' ! j)"
      proof (intro allI impI)
        fix j assume j: "j < length ?f"
        then have "?f ! j \<in> set ?f" by (rule nth_mem)
        then have "comment_userId (?f ! j) \<noteq> comment_userId c" by simp
        then show "\<not> ?P (?cs' ! j)" using j by (simp add: nth_append)
      qed
    qed
    then have "?cs'[nat (findIndex ?P ?cs') := c] = ?cs'" by simp
    then have "comment_added_update c (Some (a\<lparr>comments := ?cs'\<rparr>)) = Some (a\<lparr>comments := ?cs'\<rparr>)"
      using ex' by (simp only: comment_added_update_Some) simp
    then show ?thesis unfolding first .
  qed
qed

lemma on_comment_added_idem:
  "on_comment_added c (on_comment_added c s) = on_comment_added c s"
  by (simp add: on_comment_added_def Let_def comment_added_update_idem)

lemma comment_added_update_mem:
  assumes "comment_added_update c (Some a) = Some a'"
  shows "c \<in> set (comments a')"
proof (cases "\<exists>e\<in>set (comments a). comment_userId e = comment_userId c \<and> comment_text e = comment_text c")
  case True
  let ?P = "\<lambda>e. comment_userId e = comment_userId c \<and> comment_text e = comment_text c"
  let ?i = "nat (findIndex ?P (comments a))"
  from findIndex_first [of "comments a" ?P, OF True]
  have 1: "?i < length (comments a)" by blast
  have a': "a' = a\<lparr>comments := (comments a)[?i := c]\<rparr>"
    using assms True by (simp only: comment_added_update_Some if_True) simp
  show ?thesis unfolding a' using 1 by (simp add: set_update_memI)
next
  case False
  have a': "a' = a\<lparr>comments := filter (\<lambda>e. comment_userId e \<noteq> comment_userId c) (comments a) @ [c]\<rparr>"
    using assms False by (simp only: comment_added_update_Some if_False) simp
  show ?thesis unfolding a' by simp
qed

lemma distinct_map_filter_eq:
  "distinct (map f xs) \<Longrightarrow> x \<in> set xs \<Longrightarrow> filter (\<lambda>e. f e = f x) xs = [x]"
proof (induction xs)
  case Nil
  then show ?case by simp
next
  case (Cons y ys)
  show ?case
  proof (cases "x = y")
    case True
    have "filter (\<lambda>e. f e = f y) ys = []"
      using Cons.prems(1) by (auto simp: filter_empty_conv image_iff)
    with True show ?thesis by simp
  next
    case False
    with Cons.prems have "x \<in> set ys" by simp
    then have "f y \<noteq> f x" using Cons.prems(1) by auto
    with Cons False \<open>x \<in> set ys\<close> show ?thesis by simp
  qed
qed

lemma comment_added_keeps_distinct:
  assumes "distinct (map comment_userId (comments a))"
    and "comment_added_update c (Some a) = Some a'"
  shows "distinct (map comment_userId (comments a')) \<and> ratings a' = ratings a"
proof (cases "\<exists>e\<in>set (comments a). comment_userId e = comment_userId c \<and> comment_text e = comment_text c")
  case True
  let ?P = "\<lambda>e. comment_userId e = comment_userId c \<and> comment_text e = comment_text c"
  let ?i = "nat (findIndex ?P (comments a))"
  from findIndex_first [of "comments a" ?P, OF True]
  have 1: "?i < length (comments a)" and 2: "?P (comments a ! ?i)" by blast+
  have a': "a' = a\<lparr>comments := (comments a)[?i := c]\<rparr>"
    using assms(2) True by (simp only: comment_added_update_Some if_True) simp
  have "map comment_userId ((comments a)[?i := c]) = (map comment_userId (comments a))[?i := comment_userId (comments a ! ?i)]"
    using 2 by (simp add: map_update)
  also have "\<dots> = map comment_userId (comments a)"
    using 1 by (metis list_update_id map_update)
  finally show ?thesis using assms(1) a' by simp
next
  case False
  have a': "a' = a\<lparr>comments := filter (\<lambda>e. comment_userId e \<noteq> comment_userId c) (comments a) @ [c]\<rparr>"
    using assms(2) False by (simp only: comment_added_update_Some if_False) simp
  show ?thesis using assms(1) unfolding a' by (auto simp: distinct_map_filter)
qed

lemma comment_voted_keeps_distinct:
  assumes "distinct (map comment_userId cs)"
    and "list_all (\<lambda>e. comment_id e = comment_id c \<longrightarrow> comment_userId e = comment_userId c) cs"
  shows "map comment_userId (map (\<lambda>e. if comment_id e = comment_id c then c else e) cs)
           = map comment_userId cs"
  using assms(2) by (induction cs) simp_all

lemmas sample_defs =
  sample_comment_def sample_rating_def sample_participant_def sample_axis_def
  sample_activity_def sample_state_def sample_view_def

lemmas listener_defs =
  on_rating_added_def on_comment_added_def on_comment_voted_def
  on_participant_joined_def on_participant_left_def
  rating_added_update_def comment_added_update_def comment_voted_update_def
  participant_joined_update_def participant_left_update_def
  findIndex_def handle_events_def Let_def

section \<open>The apply-operations\<close>

text \<open>
  C1. On a loaded activity, \<^verbatim>\<open>comment_added\<close> follows the two-step rule. If some stored
  comment has the user id and the text of the incoming comment, the first such comment is
  replaced at its position by the incoming one: the list keeps its length and every other
  position is unchanged. Otherwise every stored comment of that user is removed and the
  incoming comment is appended. No other field of the activity changes. In particular, a
  single stored comment that has the user id and text of an incoming comment with vote
  count 3 is replaced by it: the result is one comment, with vote count 3.
\<close>

theorem comment_added_dedup_rule:
  assumes "activity s = Some a"
  shows "\<exists>a'. activity (handle_event (CommentAdded c) s) = Some a' \<and>
           a' = a\<lparr>comments := comments a'\<rparr> \<and>
           (if \<exists>e\<in>set (comments a). comment_userId e = comment_userId c \<and> comment_text e = comment_text c
            then \<exists>i<length (comments a).
                   (comment_userId (comments a ! i) = comment_userId c \<and>
                    comment_text (comments a ! i) = comment_text c) \<and>
                   (\<forall>j<i. \<not> (comment_userId (comments a ! j) = comment_userId c \<and>
                                comment_text (comments a ! j) = comment_text c)) \<and>
                   comments a' = (comments a)[i := c] \<and>
                   length (comments a') = length (comments a) \<and>
                   comments a' ! i = c \<and>
                   (\<forall>j<length (comments a). j \<noteq> i \<longrightarrow> comments a' ! j = comments a ! j)
            else comments a' = filter (\<lambda>e. comment_userId e \<noteq> comment_userId c) (comments a) @ [c]) \<and>
           (\<forall>e. comments a = [e] \<and> comment_userId e = comment_userId c \<and> comment_text e = comment_text c \<and> voteCount c = 3
               \<longrightarrow> comments a' = [c] \<and> length (comments a') = 1 \<and> voteCount (comments a' ! 0) = 3)"
proof (cases "\<exists>e\<in>set (comments a). comment_userId e = comment_userId c \<and> comment_text e = comment_text c")
  case True
  let ?P = "\<lambda>e. comment_userId e = comment_userId c \<and> comment_text e = comment_text c"
  let ?cs' = "(comments a)[nat (findIndex ?P (comments a)) := c]"
  have act: "activity (handle_event (CommentAdded c) s) = Some (a\<lparr>comments := ?cs'\<rparr>)"
    using assms True by (simp only: handle_event.simps activity_on_comment_added comment_added_update_Some if_True)
  have ex: "\<forall>e. comments a = [e] \<and> comment_userId e = comment_userId c \<and> comment_text e = comment_text c \<and> voteCount c = 3
               \<longrightarrow> ?cs' = [c] \<and> length ?cs' = 1 \<and> voteCount (?cs' ! 0) = 3"
    by (auto simp: findIndex_def)
  have sel: "comments (a\<lparr>comments := ?cs'\<rparr>) = ?cs'" by simp
  show ?thesis
    apply (rule exI [of _ "a\<lparr>comments := ?cs'\<rparr>"])
    apply (simp only: act True if_True sel)
    apply (intro conjI TrueI refl comment_added_replace_branch [OF True] ex)
    done
next
  case False
  let ?cs' = "filter (\<lambda>e. comment_userId e \<noteq> comment_userId c) (comments a) @ [c]"
  have act: "activity (handle_event (CommentAdded c) s) = Some (a\<lparr>comments := ?cs'\<rparr>)"
    using assms False by (simp only: handle_event.simps activity_on_comment_added comment_added_update_Some if_False)
  have sel: "comments (a\<lparr>comments := ?cs'\<rparr>) = ?cs'" by simp
  show ?thesis
    apply (rule exI [of _ "a\<lparr>comments := ?cs'\<rparr>"])
    apply (simp only: act False if_False sel)
    using False apply auto
    done
qed

theorem comment_added_dedup_rule_witness:
  "activity (sample_state (Some (sample_activity [] [] [sample_comment ''c1'' ''a'' ''hi'' 0])))
     = Some (sample_activity [] [] [sample_comment ''c1'' ''a'' ''hi'' 0]) \<and>
   activity (handle_event (CommentAdded (sample_comment ''c1'' ''a'' ''hi'' 3))
       (sample_state (Some (sample_activity [] [] [sample_comment ''c1'' ''a'' ''hi'' 0]))))
     = Some (sample_activity [] [] [sample_comment ''c1'' ''a'' ''hi'' 3]) \<and>
   activity (handle_event (CommentAdded (sample_comment ''c2'' ''a'' ''bye'' 0))
       (sample_state (Some (sample_activity [] [] [sample_comment ''c1'' ''a'' ''hi'' 3]))))
     = Some (sample_activity [] [] [sample_comment ''c2'' ''a'' ''bye'' 0])"
  using comment_added_dedup_rule
    [of "sample_state (Some (sample_activity [] [] [sample_comment ''c1'' ''a'' ''hi'' 0]))"
        "sample_activity [] [] [sample_comment ''c1'' ''a'' ''hi'' 0]"
        "sample_comment ''c1'' ''a'' ''hi'' 3"]
  by (simp add: sample_defs listener_defs)

text \<open>
  C2. On a loaded activity, \<^verbatim>\<open>rating_added\<close> removes every stored rating of the user of
  the incoming rating and appends the incoming rating. Applying the same rating twice gives
  the same state as applying it once. After any non-empty sequence of \<^verbatim>\<open>rating_added\<close>
  events of one user, the only rating of that user is the last one applied, with its
  position, and the ratings of the other users are as before.
\<close>

theorem rating_added_replace_idempotent:
  assumes "activity s = Some a"
  shows "activity (handle_event (RatingAdded r) s) =
           Some (a\<lparr>ratings := filter (\<lambda>q. rating_userId q \<noteq> rating_userId r) (ratings a) @ [r]\<rparr>) \<and>
         handle_event (RatingAdded r) (handle_event (RatingAdded r) s) = handle_event (RatingAdded r) s \<and>
         (rs \<noteq> [] \<and> (\<forall>q\<in>set rs. rating_userId q = u) \<longrightarrow>
            (\<exists>a'. activity (handle_events (map RatingAdded rs) s) = Some a' \<and>
                  filter (\<lambda>q. rating_userId q = u) (ratings a') = [last rs] \<and>
                  map position (filter (\<lambda>q. rating_userId q = u) (ratings a')) = [position (last rs)] \<and>
                  filter (\<lambda>q. rating_userId q \<noteq> u) (ratings a') =
                    filter (\<lambda>q. rating_userId q \<noteq> u) (ratings a)))"
proof (intro conjI impI)
  show "activity (handle_event (RatingAdded r) s) =
           Some (a\<lparr>ratings := filter (\<lambda>q. rating_userId q \<noteq> rating_userId r) (ratings a) @ [r]\<rparr>)"
    using assms by (simp add: activity_on_rating_added rating_added_update_Some)
  show "handle_event (RatingAdded r) (handle_event (RatingAdded r) s) = handle_event (RatingAdded r) s"
    by (simp add: on_rating_added_idem)
next
  assume h: "rs \<noteq> [] \<and> (\<forall>q\<in>set rs. rating_userId q = u)"
  then have lu: "rating_userId (last rs) = u" by simp
  from ratings_same_user_last [OF assms, of rs u] h
  obtain a' where a': "activity (handle_events (map RatingAdded rs) s) = Some a'"
      "a' = a\<lparr>ratings := filter (\<lambda>q. rating_userId q \<noteq> u) (ratings a) @ [last rs]\<rparr>"
    by blast
  have f1: "filter (\<lambda>q. rating_userId q = u) (filter (\<lambda>q. rating_userId q \<noteq> u) (ratings a)) = []"
    by (simp add: filter_empty_conv)
  have "filter (\<lambda>q. rating_userId q = u) (ratings a') = [last rs]"
    using a'(2) lu f1 by simp
  moreover have "filter (\<lambda>q. rating_userId q \<noteq> u) (ratings a') =
                    filter (\<lambda>q. rating_userId q \<noteq> u) (ratings a)"
    using a'(2) lu by simp
  ultimately show "\<exists>a'. activity (handle_events (map RatingAdded rs) s) = Some a' \<and>
                  filter (\<lambda>q. rating_userId q = u) (ratings a') = [last rs] \<and>
                  map position (filter (\<lambda>q. rating_userId q = u) (ratings a')) = [position (last rs)] \<and>
                  filter (\<lambda>q. rating_userId q \<noteq> u) (ratings a') =
                    filter (\<lambda>q. rating_userId q \<noteq> u) (ratings a)"
    using a'(1) by simp
qed

theorem rating_added_replace_idempotent_witness:
  "activity (sample_state (Some (sample_activity []
       [sample_rating ''a'' 0 0, sample_rating ''b'' 1 1] [])))
     = Some (sample_activity [] [sample_rating ''a'' 0 0, sample_rating ''b'' 1 1] []) \<and>
   [sample_rating ''a'' 2 2, sample_rating ''a'' 3 3] \<noteq> [] \<and>
   list_all (\<lambda>q. rating_userId q = ''a'') [sample_rating ''a'' 2 2, sample_rating ''a'' 3 3] \<and>
   activity (handle_events (map RatingAdded [sample_rating ''a'' 2 2, sample_rating ''a'' 3 3])
       (sample_state (Some (sample_activity []
          [sample_rating ''a'' 0 0, sample_rating ''b'' 1 1] []))))
     = Some (sample_activity [] [sample_rating ''b'' 1 1, sample_rating ''a'' 3 3] [])"
  using rating_added_replace_idempotent
    [of "sample_state (Some (sample_activity []
           [sample_rating ''a'' 0 0, sample_rating ''b'' 1 1] []))"
        "sample_activity [] [sample_rating ''a'' 0 0, sample_rating ''b'' 1 1] []"
        "sample_rating ''a'' 2 2"
        "[sample_rating ''a'' 2 2, sample_rating ''a'' 3 3]" "''a''"]
  by (simp add: sample_defs listener_defs)

text \<open>
  C3. When no activity is loaded, every listener leaves the activity \<^verbatim>\<open>null\<close>: each of
  the five updaters returns \<^verbatim>\<open>null\<close>, and no listener has a failing branch. Nothing
  of the page state changes but the record of the user's own rating or comment, which the
  listeners of \<^verbatim>\<open>rating_added\<close> and \<^verbatim>\<open>comment_added\<close> set after the update.
\<close>

theorem null_activity_noop:
  assumes "activity s = None"
  shows "activity (handle_event ev s) = None \<and>
         (case ev of
            RatingAdded r \<Rightarrow> rating_added_update r (activity s) = None
          | CommentAdded c \<Rightarrow> comment_added_update c (activity s) = None
          | CommentVoted c \<Rightarrow> comment_voted_update c (activity s) = None
          | ParticipantJoined p \<Rightarrow> participant_joined_update p (activity s) = None
          | ParticipantLeft pid \<Rightarrow> participant_left_update pid (activity s) = None) \<and>
         handle_event ev s =
           s\<lparr>userRating := userRating (handle_event ev s),
             userComment := userComment (handle_event ev s)\<rparr>"
  using assms
  by (cases ev)
     (simp_all add: on_rating_added_def on_comment_added_def on_comment_voted_def
        on_participant_joined_def on_participant_left_def
        rating_added_update_def comment_added_update_def comment_voted_update_def
        participant_joined_update_def participant_left_update_def Let_def)

theorem null_activity_noop_witness:
  "activity (sample_state None) = None \<and>
   activity (handle_event (RatingAdded (sample_rating ''me'' 1 1)) (sample_state None)) = None \<and>
   activity (handle_event (CommentAdded (sample_comment ''c1'' ''a'' ''hi'' 0)) (sample_state None)) = None \<and>
   handle_event (CommentVoted (sample_comment ''c1'' ''a'' ''hi'' 0)) (sample_state None)
     = sample_state None \<and>
   handle_event (ParticipantJoined (sample_participant ''p'')) (sample_state None)
     = sample_state None \<and>
   handle_event (ParticipantLeft ''p'') (sample_state None) = sample_state None"
  using null_activity_noop [of "sample_state None" "RatingAdded (sample_rating ''me'' 1 1)"]
    null_activity_noop [of "sample_state None" "CommentAdded (sample_comment ''c1'' ''a'' ''hi'' 0)"]
  by (simp add: sample_defs listener_defs)

text \<open>
  C7. On a loaded activity, \<^verbatim>\<open>comment_voted\<close> puts the incoming comment at every
  position whose stored comment has its id, and leaves every other position as it is. The
  list of comments keeps its length; the ratings, the participants, the status and every
  other field of the activity, and the rest of the page state, are unchanged. When no
  stored comment has the id, the state is unchanged: the incoming comment is not appended.
\<close>

theorem comment_voted_frame:
  assumes "activity s = Some a"
  shows "handle_event (CommentVoted c) s =
           s\<lparr>activity := Some (a\<lparr>comments :=
               map (\<lambda>e. if comment_id e = comment_id c then c else e) (comments a)\<rparr>)\<rparr> \<and>
         (\<exists>a'. activity (handle_event (CommentVoted c) s) = Some a' \<and>
            a' = a\<lparr>comments := comments a'\<rparr> \<and>
            ratings a' = ratings a \<and> participants a' = participants a \<and> status a' = status a \<and>
            length (comments a') = length (comments a) \<and>
            (\<forall>i<length (comments a).
               comments a' ! i = (if comment_id (comments a ! i) = comment_id c then c else comments a ! i)) \<and>
            ((\<forall>e\<in>set (comments a). comment_id e \<noteq> comment_id c) \<longrightarrow>
               a' = a \<and> handle_event (CommentVoted c) s = s))"
proof -
  let ?cs' = "map (\<lambda>e. if comment_id e = comment_id c then c else e) (comments a)"
  have h: "handle_event (CommentVoted c) s = s\<lparr>activity := Some (a\<lparr>comments := ?cs'\<rparr>)\<rparr>"
    using assms by (simp add: on_comment_voted_def comment_voted_update_def)
  have unch: "(\<forall>e\<in>set (comments a). comment_id e \<noteq> comment_id c) \<Longrightarrow> ?cs' = comments a"
    by (induction "comments a") (simp_all add: map_idI)
  have sa: "s\<lparr>activity := Some a\<rparr> = s"
    using assms [symmetric] by simp
  have same: "(\<forall>e\<in>set (comments a). comment_id e \<noteq> comment_id c) \<Longrightarrow>
                 a\<lparr>comments := ?cs'\<rparr> = a"
    using unch by simp
  show ?thesis
    unfolding h using same sa by simp
qed

theorem comment_voted_frame_witness:
  "activity (sample_state (Some (sample_activity [] []
       [sample_comment ''c1'' ''a'' ''hi'' 0, sample_comment ''c2'' ''b'' ''yo'' 1])))
     = Some (sample_activity [] []
         [sample_comment ''c1'' ''a'' ''hi'' 0, sample_comment ''c2'' ''b'' ''yo'' 1]) \<and>
   handle_event (CommentVoted (sample_comment ''c1'' ''a'' ''hi'' 5))
       (sample_state (Some (sample_activity [] []
          [sample_comment ''c1'' ''a'' ''hi'' 0, sample_comment ''c2'' ''b'' ''yo'' 1])))
     = sample_state (Some (sample_activity [] []
          [sample_comment ''c1'' ''a'' ''hi'' 5, sample_comment ''c2'' ''b'' ''yo'' 1])) \<and>
   handle_event (CommentVoted (sample_comment ''c9'' ''a'' ''hi'' 5))
       (sample_state (Some (sample_activity [] []
          [sample_comment ''c1'' ''a'' ''hi'' 0, sample_comment ''c2'' ''b'' ''yo'' 1])))
     = sample_state (Some (sample_activity [] []
          [sample_comment ''c1'' ''a'' ''hi'' 0, sample_comment ''c2'' ''b'' ''yo'' 1]))"
  using comment_voted_frame
    [of "sample_state (Some (sample_activity [] []
           [sample_comment ''c1'' ''a'' ''hi'' 0, sample_comment ''c2'' ''b'' ''yo'' 1]))"
        "sample_activity [] []
           [sample_comment ''c1'' ''a'' ''hi'' 0, sample_comment ''c2'' ''b'' ''yo'' 1]"
        "sample_comment ''c9'' ''a'' ''hi'' 5"]
  by (simp add: sample_defs listener_defs)

text \<open>
  C8. On a loaded activity, \<^verbatim>\<open>participant_joined\<close> removes every stored participant
  with the id of the incoming one and appends the incoming one: afterwards exactly one
  participant has that id, the incoming one, and a list without repeated ids stays without
  repeated ids. \<^verbatim>\<open>participant_left\<close> removes every participant with the given id, and
  leaves the state unchanged when no participant has it.
\<close>

theorem participants_upsert_remove:
  assumes "activity s = Some a"
  shows "(\<exists>a'. activity (handle_event (ParticipantJoined p) s) = Some a' \<and>
            a' = a\<lparr>participants :=
                   filter (\<lambda>q. participant_id q \<noteq> participant_id p) (participants a) @ [p]\<rparr> \<and>
            filter (\<lambda>q. participant_id q = participant_id p) (participants a') = [p] \<and>
            filter (\<lambda>q. participant_id q \<noteq> participant_id p) (participants a') =
              filter (\<lambda>q. participant_id q \<noteq> participant_id p) (participants a) \<and>
            (distinct (map participant_id (participants a)) \<longrightarrow>
               distinct (map participant_id (participants a')))) \<and>
         (\<exists>a'. activity (handle_event (ParticipantLeft pid) s) = Some a' \<and>
            a' = a\<lparr>participants := filter (\<lambda>q. participant_id q \<noteq> pid) (participants a)\<rparr> \<and>
            (\<forall>q\<in>set (participants a'). participant_id q \<noteq> pid) \<and>
            (distinct (map participant_id (participants a)) \<longrightarrow>
               distinct (map participant_id (participants a'))) \<and>
            ((\<forall>q\<in>set (participants a). participant_id q \<noteq> pid) \<longrightarrow>
               a' = a \<and> handle_event (ParticipantLeft pid) s = s))"
proof (intro conjI)
  let ?ps = "filter (\<lambda>q. participant_id q \<noteq> participant_id p) (participants a)"
  have j: "activity (handle_event (ParticipantJoined p) s) = Some (a\<lparr>participants := ?ps @ [p]\<rparr>)"
    using assms by (simp add: on_participant_joined_def participant_joined_update_def)
  have f1: "filter (\<lambda>q. participant_id q = participant_id p) ?ps = []"
    by (simp add: filter_empty_conv)
  have d: "distinct (map participant_id (participants a)) \<Longrightarrow>
           distinct (map participant_id (?ps @ [p]))"
    by (auto simp: distinct_map_filter)
  show "\<exists>a'. activity (handle_event (ParticipantJoined p) s) = Some a' \<and>
            a' = a\<lparr>participants := ?ps @ [p]\<rparr> \<and>
            filter (\<lambda>q. participant_id q = participant_id p) (participants a') = [p] \<and>
            filter (\<lambda>q. participant_id q \<noteq> participant_id p) (participants a') = ?ps \<and>
            (distinct (map participant_id (participants a)) \<longrightarrow>
               distinct (map participant_id (participants a')))"
    unfolding j using f1 d by simp
next
  let ?ps = "filter (\<lambda>q. participant_id q \<noteq> pid) (participants a)"
  have l: "handle_event (ParticipantLeft pid) s = s\<lparr>activity := Some (a\<lparr>participants := ?ps\<rparr>)\<rparr>"
    using assms by (simp add: on_participant_left_def participant_left_update_def)
  have sa: "s\<lparr>activity := Some a\<rparr> = s"
    using assms [symmetric] by simp
  have unch: "(\<forall>q\<in>set (participants a). participant_id q \<noteq> pid) \<Longrightarrow> ?ps = participants a"
    by simp
  show "\<exists>a'. activity (handle_event (ParticipantLeft pid) s) = Some a' \<and>
            a' = a\<lparr>participants := ?ps\<rparr> \<and>
            (\<forall>q\<in>set (participants a'). participant_id q \<noteq> pid) \<and>
            (distinct (map participant_id (participants a)) \<longrightarrow>
               distinct (map participant_id (participants a'))) \<and>
            ((\<forall>q\<in>set (participants a). participant_id q \<noteq> pid) \<longrightarrow>
               a' = a \<and> handle_event (ParticipantLeft pid) s = s)"
    unfolding l using unch sa by (simp add: distinct_map_filter)
qed

theorem participants_upsert_remove_witness:
  "activity (sample_state (Some (sample_activity
       [sample_participant ''p1'', sample_participant ''p2''] [] [])))
     = Some (sample_activity [sample_participant ''p1'', sample_participant ''p2''] [] []) \<and>
   distinct (map participant_id [sample_participant ''p1'', sample_participant ''p2'']) \<and>
   activity (handle_event (ParticipantJoined (sample_participant ''p1''))
       (sample_state (Some (sample_activity
          [sample_participant ''p1'', sample_participant ''p2''] [] []))))
     = Some (sample_activity [sample_participant ''p2'', sample_participant ''p1''] [] []) \<and>
   handle_event (ParticipantLeft ''p3'')
       (sample_state (Some (sample_activity
          [sample_participant ''p1'', sample_participant ''p2''] [] [])))
     = sample_state (Some (sample_activity
          [sample_participant ''p1'', sample_participant ''p2''] [] []))"
  using participants_upsert_remove
    [of "sample_state (Some (sample_activity
           [sample_participant ''p1'', sample_participant ''p2''] [] []))"
        "sample_activity [sample_participant ''p1'', sample_participant ''p2''] [] []"
        "sample_participant ''p1''" "''p3''"]
  by (simp add: sample_defs listener_defs)

lemma comment_added_update_subset:
  assumes "comment_added_update c (Some a) = Some a'"
  shows "set (comments a') \<subseteq> insert c (set (comments a))"
proof (cases "\<exists>e\<in>set (comments a). comment_userId e = comment_userId c \<and> comment_text e = comment_text c")
  case True
  let ?P = "\<lambda>e. comment_userId e = comment_userId c \<and> comment_text e = comment_text c"
  have a': "a' = a\<lparr>comments := (comments a)[nat (findIndex ?P (comments a)) := c]\<rparr>"
    using assms True by (simp only: comment_added_update_Some if_True) simp
  show ?thesis unfolding a' by (simp add: set_update_subset_insert)
next
  case False
  have a': "a' = a\<lparr>comments := filter (\<lambda>e. comment_userId e \<noteq> comment_userId c) (comments a) @ [c]\<rparr>"
    using assms False by (simp only: comment_added_update_Some if_False) simp
  show ?thesis unfolding a' by auto
qed

lemma comment_voted_update_subset:
  assumes "comment_voted_update c (Some a) = Some a'"
  shows "set (comments a') \<subseteq> insert c (set (comments a))"
  using assms by (auto simp: comment_voted_update_def)

lemma comment_update_Some:
  "\<exists>a'. comment_added_update c (Some a) = Some a'" "\<exists>a'. comment_voted_update c (Some a) = Some a'"
  by (simp_all add: comment_added_update_def comment_voted_update_def Let_def)

lemma comment_added_update_keeps_others:
  assumes "comment_added_update c (Some a) = Some a'"
  shows "\<forall>e\<in>set (comments a). comment_userId e \<noteq> comment_userId c \<longrightarrow> e \<in> set (comments a')"
proof (cases "\<exists>e\<in>set (comments a). comment_userId e = comment_userId c \<and> comment_text e = comment_text c")
  case True
  let ?P = "\<lambda>e. comment_userId e = comment_userId c \<and> comment_text e = comment_text c"
  let ?i = "nat (findIndex ?P (comments a))"
  from findIndex_first [of "comments a" ?P, OF True]
  have 1: "?i < length (comments a)" and 2: "?P (comments a ! ?i)" by blast+
  have a': "a' = a\<lparr>comments := (comments a)[?i := c]\<rparr>"
    using assms True by (simp only: comment_added_update_Some if_True) simp
  show ?thesis
  proof (intro ballI impI)
    fix e assume e: "e \<in> set (comments a)" and ne: "comment_userId e \<noteq> comment_userId c"
    then obtain j where j: "j < length (comments a)" "comments a ! j = e"
      by (auto simp: in_set_conv_nth)
    with ne 2 have "j \<noteq> ?i" by auto
    with j have "(comments a)[?i := c] ! j = e" by simp
    with j(1) have "e \<in> set ((comments a)[?i := c])"
      by (metis length_list_update nth_mem)
    then show "e \<in> set (comments a')" unfolding a' by simp
  qed
next
  case False
  have a': "a' = a\<lparr>comments := filter (\<lambda>e. comment_userId e \<noteq> comment_userId c) (comments a) @ [c]\<rparr>"
    using assms False by (simp only: comment_added_update_Some if_False) simp
  show ?thesis unfolding a' by simp
qed

text \<open>
  C5. Vote counts are installed as the server delivers them, never computed by a listener.
  On a loaded activity, every comment stored after a \<^verbatim>\<open>comment_added\<close> or
  \<^verbatim>\<open>comment_voted\<close> event is either a comment stored before it, unchanged, or the
  incoming comment itself. \<^verbatim>\<open>comment_voted\<close> puts the incoming comment at every position
  whose stored comment has its id, so that afterwards every stored comment with that id is
  the incoming one, with the delivered count, lower or not. \<^verbatim>\<open>comment_added\<close> stores
  the incoming comment and keeps the comments of the other users. When the incoming comment
  has a vote count at least that of every stored comment with its id, no id loses votes:
  every comment stored afterwards whose id was stored before has at least the vote count of
  a comment stored before under that id.
\<close>

theorem vote_count_server_installed:
  assumes "activity s = Some a" and "ev = CommentAdded c \<or> ev = CommentVoted c"
  shows "\<exists>a'. activity (handle_event ev s) = Some a' \<and>
           set (comments a') \<subseteq> insert c (set (comments a)) \<and>
           (ev = CommentVoted c \<longrightarrow>
              comments a' = map (\<lambda>e. if comment_id e = comment_id c then c else e) (comments a) \<and>
              (\<forall>e'\<in>set (comments a'). comment_id e' = comment_id c \<longrightarrow> e' = c) \<and>
              ((\<exists>e\<in>set (comments a). comment_id e = comment_id c) \<longrightarrow> c \<in> set (comments a'))) \<and>
           (ev = CommentAdded c \<longrightarrow>
              c \<in> set (comments a') \<and>
              (\<forall>e\<in>set (comments a). comment_userId e \<noteq> comment_userId c \<longrightarrow> e \<in> set (comments a'))) \<and>
           ((\<forall>e\<in>set (comments a). comment_id e = comment_id c \<longrightarrow> voteCount e \<le> voteCount c) \<longrightarrow>
              (\<forall>e'\<in>set (comments a').
                 (\<exists>e\<in>set (comments a). comment_id e = comment_id e') \<longrightarrow>
                 (\<exists>e\<in>set (comments a). comment_id e = comment_id e' \<and> voteCount e \<le> voteCount e')))"
proof -
  obtain a' where a': "activity (handle_event ev s) = Some a'"
    and sub: "set (comments a') \<subseteq> insert c (set (comments a))"
    and voted: "ev = CommentVoted c \<Longrightarrow>
                  comments a' = map (\<lambda>e. if comment_id e = comment_id c then c else e) (comments a)"
    and added: "ev = CommentAdded c \<Longrightarrow> comment_added_update c (Some a) = Some a'"
  proof (cases "ev = CommentAdded c")
    case True
    from comment_update_Some(1) obtain b where b: "comment_added_update c (Some a) = Some b" ..
    have "activity (handle_event ev s) = Some b"
      using True assms(1) b by (simp add: activity_on_comment_added)
    moreover have "ev \<noteq> CommentVoted c" using True by simp
    ultimately show ?thesis
      using comment_added_update_subset [OF b] b that [of b] by blast
  next
    case False
    with assms(2) have ev: "ev = CommentVoted c" by simp
    let ?b = "a\<lparr>comments := map (\<lambda>e. if comment_id e = comment_id c then c else e) (comments a)\<rparr>"
    have b: "comment_voted_update c (Some a) = Some ?b"
      by (simp add: comment_voted_update_def)
    have "activity (handle_event ev s) = Some ?b"
      using ev assms(1) b by (simp add: on_comment_voted_def)
    moreover have "comments ?b = map (\<lambda>e. if comment_id e = comment_id c then c else e) (comments a)"
      by simp
    ultimately show ?thesis
      using comment_voted_update_subset [OF b] False that [of ?b] by blast
  qed
  have v2: "\<forall>e'\<in>set (comments a'). comment_id e' = comment_id c \<longrightarrow> e' = c"
    if "ev = CommentVoted c"
    unfolding voted [OF that] by auto
  have v3: "c \<in> set (comments a')"
    if "ev = CommentVoted c" and "\<exists>e\<in>set (comments a). comment_id e = comment_id c"
    unfolding voted [OF that(1)] using that(2) by (auto simp: image_iff)
  have a1: "c \<in> set (comments a')" if "ev = CommentAdded c"
    using added [OF that] by (rule comment_added_update_mem)
  have a2: "\<forall>e\<in>set (comments a). comment_userId e \<noteq> comment_userId c \<longrightarrow> e \<in> set (comments a')"
    if "ev = CommentAdded c"
    using added [OF that] by (rule comment_added_update_keeps_others)
  have mono: "\<forall>e'\<in>set (comments a').
                 (\<exists>e\<in>set (comments a). comment_id e = comment_id e') \<longrightarrow>
                 (\<exists>e\<in>set (comments a). comment_id e = comment_id e' \<and> voteCount e \<le> voteCount e')"
    if h: "\<forall>e\<in>set (comments a). comment_id e = comment_id c \<longrightarrow> voteCount e \<le> voteCount c"
  proof (intro ballI impI)
    fix e' assume e': "e' \<in> set (comments a')"
      and ex: "\<exists>e\<in>set (comments a). comment_id e = comment_id e'"
    from e' sub have "e' = c \<or> e' \<in> set (comments a)" by auto
    then show "\<exists>e\<in>set (comments a). comment_id e = comment_id e' \<and> voteCount e \<le> voteCount e'"
    proof
      assume "e' = c"
      with ex h show ?thesis by auto
    next
      assume "e' \<in> set (comments a)"
      then show ?thesis by auto
    qed
  qed
  show ?thesis
    apply (rule exI [of _ a'])
    apply (intro conjI impI a' sub)
    using voted v2 v3 a1 a2 mono apply blast+
    done
qed

theorem vote_count_server_installed_witness:
  "activity (sample_state (Some (sample_activity [] [] [sample_comment ''c1'' ''a'' ''hi'' 3])))
     = Some (sample_activity [] [] [sample_comment ''c1'' ''a'' ''hi'' 3]) \<and>
   list_all (\<lambda>e. comment_id e = ''c1'' \<and> voteCount e \<le> 4) [sample_comment ''c1'' ''a'' ''hi'' 3] \<and>
   activity (handle_event (CommentVoted (sample_comment ''c1'' ''a'' ''hi'' 4))
       (sample_state (Some (sample_activity [] [] [sample_comment ''c1'' ''a'' ''hi'' 3]))))
     = Some (sample_activity [] [] [sample_comment ''c1'' ''a'' ''hi'' 4])"
  using vote_count_server_installed
    [of "sample_state (Some (sample_activity [] [] [sample_comment ''c1'' ''a'' ''hi'' 3]))"
        "sample_activity [] [] [sample_comment ''c1'' ''a'' ''hi'' 3]"
        "CommentVoted (sample_comment ''c1'' ''a'' ''hi'' 4)"
        "sample_comment ''c1'' ''a'' ''hi'' 4"]
  by (simp add: sample_defs listener_defs)

text \<open>
  The count is not monotonic for every event: a \<^verbatim>\<open>comment_voted\<close> event that carries
  vote count 1 for a comment stored with vote count 3 leaves it with vote count 1.
\<close>

theorem vote_count_monotonic_counterexample:
  "activity (sample_state (Some (sample_activity [] [] [sample_comment ''c1'' ''a'' ''hi'' 3])))
     = Some (sample_activity [] [] [sample_comment ''c1'' ''a'' ''hi'' 3]) \<and>
   activity (handle_event (CommentVoted (sample_comment ''c1'' ''a'' ''hi'' 1))
       (sample_state (Some (sample_activity [] [] [sample_comment ''c1'' ''a'' ''hi'' 3]))))
     = Some (sample_activity [] [] [sample_comment ''c1'' ''a'' ''hi'' 1]) \<and>
   comment_id (sample_comment ''c1'' ''a'' ''hi'' 1) = comment_id (sample_comment ''c1'' ''a'' ''hi'' 3) \<and>
   voteCount (sample_comment ''c1'' ''a'' ''hi'' 1) < voteCount (sample_comment ''c1'' ''a'' ''hi'' 3)"
  by (simp add: sample_defs listener_defs)

lemma rating_added_keeps_inv:
  "one_per_user a \<Longrightarrow> rating_added_update r (Some a) = Some a' \<Longrightarrow> one_per_user a'"
  by (auto simp: rating_added_update_def one_per_user_def distinct_map_filter)

lemma comment_added_keeps_inv:
  "one_per_user a \<Longrightarrow> comment_added_update c (Some a) = Some a' \<Longrightarrow> one_per_user a'"
  using comment_added_keeps_distinct [of a c a'] by (simp add: one_per_user_def)

lemma comment_voted_keeps_inv:
  "one_per_user a \<Longrightarrow>
   list_all (\<lambda>e. comment_id e = comment_id c \<longrightarrow> comment_userId e = comment_userId c) (comments a) \<Longrightarrow>
   comment_voted_update c (Some a) = Some a' \<Longrightarrow> one_per_user a'"
proof -
  assume inv: "one_per_user a"
    and k: "list_all (\<lambda>e. comment_id e = comment_id c \<longrightarrow> comment_userId e = comment_userId c) (comments a)"
    and u: "comment_voted_update c (Some a) = Some a'"
  from inv have d: "distinct (map comment_userId (comments a))" by (simp add: one_per_user_def)
  have a': "a' = a\<lparr>comments := map (\<lambda>e. if comment_id e = comment_id c then c else e) (comments a)\<rparr>"
    using u by (simp add: comment_voted_update_def)
  have sel: "comments a' = map (\<lambda>e. if comment_id e = comment_id c then c else e) (comments a)"
    using a' by simp
  have eq: "map comment_userId (comments a') = map comment_userId (comments a)"
    unfolding sel by (rule comment_voted_keeps_distinct [OF d k])
  have r: "ratings a' = ratings a" using a' by simp
  show "one_per_user a'"
    unfolding one_per_user_def eq r using inv by (simp add: one_per_user_def)
qed

lemma participants_keep_inv:
  "one_per_user a \<Longrightarrow> participant_joined_update p (Some a) = Some a' \<Longrightarrow> one_per_user a'"
  "one_per_user a \<Longrightarrow> participant_left_update pid (Some a) = Some a' \<Longrightarrow> one_per_user a'"
  by (auto simp: participant_joined_update_def participant_left_update_def one_per_user_def)

lemma state_inv_handle_event:
  assumes "state_inv s" and "vote_keeps_user ev s"
  shows "state_inv (handle_event ev s)"
proof (cases "activity s")
  case None
  then show ?thesis
    by (cases ev) (simp_all add: state_inv_def listener_defs)
next
  case (Some a)
  with assms(1) have inv: "one_per_user a" by (simp add: state_inv_def)
  show ?thesis
  proof (cases ev)
    case (RatingAdded r)
    have "activity (handle_event ev s) = rating_added_update r (Some a)"
      using RatingAdded Some by (simp add: activity_on_rating_added)
    moreover obtain a' where "rating_added_update r (Some a) = Some a'"
      by (simp add: rating_added_update_def)
    ultimately show ?thesis
      using rating_added_keeps_inv [OF inv] by (simp add: state_inv_def)
  next
    case (CommentAdded c)
    have "activity (handle_event ev s) = comment_added_update c (Some a)"
      using CommentAdded Some by (simp add: activity_on_comment_added)
    moreover obtain a' where "comment_added_update c (Some a) = Some a'"
      using comment_update_Some(1) by blast
    ultimately show ?thesis
      using comment_added_keeps_inv [OF inv] by (simp add: state_inv_def)
  next
    case (CommentVoted c)
    have k: "list_all (\<lambda>e. comment_id e = comment_id c \<longrightarrow> comment_userId e = comment_userId c) (comments a)"
      using assms(2) CommentVoted Some by (simp add: vote_keeps_user_def)
    have "activity (handle_event ev s) = comment_voted_update c (Some a)"
      using CommentVoted Some by (simp add: on_comment_voted_def)
    moreover obtain a' where "comment_voted_update c (Some a) = Some a'"
      by (simp add: comment_voted_update_def)
    ultimately show ?thesis
      using comment_voted_keeps_inv [OF inv k] by (simp add: state_inv_def)
  next
    case (ParticipantJoined p)
    have "activity (handle_event ev s) = participant_joined_update p (Some a)"
      using ParticipantJoined Some by (simp add: on_participant_joined_def)
    moreover obtain a' where "participant_joined_update p (Some a) = Some a'"
      by (simp add: participant_joined_update_def)
    ultimately show ?thesis
      using participants_keep_inv(1) [OF inv] by (simp add: state_inv_def)
  next
    case (ParticipantLeft pid)
    have "activity (handle_event ev s) = participant_left_update pid (Some a)"
      using ParticipantLeft Some by (simp add: on_participant_left_def)
    moreover obtain a' where "participant_left_update pid (Some a) = Some a'"
      by (simp add: participant_left_update_def)
    ultimately show ?thesis
      using participants_keep_inv(2) [OF inv] by (simp add: state_inv_def)
  qed
qed

text \<open>
  C4. The invariant that each user id has at most one rating and at most one comment is
  preserved by \<^verbatim>\<open>rating_added\<close>, \<^verbatim>\<open>comment_added\<close>, \<^verbatim>\<open>participant_joined\<close> and
  \<^verbatim>\<open>participant_left\<close> for every payload, and by \<^verbatim>\<open>comment_voted\<close> when every stored
  comment with the id of the incoming comment has its user id. From a loaded state that
  satisfies the invariant, a repeated \<^verbatim>\<open>comment_added\<close> gives the same state as a single
  one, with exactly one comment of that user, the incoming one.
\<close>

theorem one_per_user_preserved:
  assumes "state_inv s" and "vote_keeps_user ev s"
  shows "state_inv (handle_event ev s) \<and>
         (\<forall>c a. ev = CommentAdded c \<and> activity s = Some a \<longrightarrow>
            handle_event ev (handle_event ev s) = handle_event ev s \<and>
            (\<exists>a'. activity (handle_event ev (handle_event ev s)) = Some a' \<and>
                  filter (\<lambda>e. comment_userId e = comment_userId c) (comments a') = [c]))"
proof (rule conjI)
  show inv': "state_inv (handle_event ev s)"
    using assms by (rule state_inv_handle_event)
  show "\<forall>c a. ev = CommentAdded c \<and> activity s = Some a \<longrightarrow>
            handle_event ev (handle_event ev s) = handle_event ev s \<and>
            (\<exists>a'. activity (handle_event ev (handle_event ev s)) = Some a' \<and>
                  filter (\<lambda>e. comment_userId e = comment_userId c) (comments a') = [c])"
  proof (intro allI impI)
    fix c a assume h: "ev = CommentAdded c \<and> activity s = Some a"
    have idem: "handle_event ev (handle_event ev s) = handle_event ev s"
      using h by (simp add: on_comment_added_idem)
    obtain a' where a': "comment_added_update c (Some a) = Some a'"
      using comment_update_Some(1) by blast
    have act: "activity (handle_event ev s) = Some a'"
      using h a' by (simp add: activity_on_comment_added)
    have "distinct (map comment_userId (comments a'))"
      using inv' act by (simp add: state_inv_def one_per_user_def)
    moreover have "c \<in> set (comments a')" using a' by (rule comment_added_update_mem)
    ultimately have "filter (\<lambda>e. comment_userId e = comment_userId c) (comments a') = [c]"
      by (rule distinct_map_filter_eq)
    with act have "\<exists>a'. activity (handle_event ev s) = Some a' \<and>
                  filter (\<lambda>e. comment_userId e = comment_userId c) (comments a') = [c]"
      by simp
    then show "handle_event ev (handle_event ev s) = handle_event ev s \<and>
            (\<exists>a'. activity (handle_event ev (handle_event ev s)) = Some a' \<and>
                  filter (\<lambda>e. comment_userId e = comment_userId c) (comments a') = [c])"
      unfolding idem by simp
  qed
qed

theorem one_per_user_preserved_witness:
  "state_inv (sample_state (Some (sample_activity [] [sample_rating ''a'' 0 0]
       [sample_comment ''c1'' ''a'' ''hi'' 0, sample_comment ''c2'' ''b'' ''yo'' 0]))) \<and>
   vote_keeps_user (CommentVoted (sample_comment ''c1'' ''a'' ''hi'' 2))
     (sample_state (Some (sample_activity [] [sample_rating ''a'' 0 0]
       [sample_comment ''c1'' ''a'' ''hi'' 0, sample_comment ''c2'' ''b'' ''yo'' 0]))) \<and>
   state_inv (handle_event (CommentVoted (sample_comment ''c1'' ''a'' ''hi'' 2))
     (sample_state (Some (sample_activity [] [sample_rating ''a'' 0 0]
       [sample_comment ''c1'' ''a'' ''hi'' 0, sample_comment ''c2'' ''b'' ''yo'' 0])))) \<and>
   activity (handle_event (CommentVoted (sample_comment ''c1'' ''a'' ''hi'' 2))
     (sample_state (Some (sample_activity [] [sample_rating ''a'' 0 0]
       [sample_comment ''c1'' ''a'' ''hi'' 0, sample_comment ''c2'' ''b'' ''yo'' 0]))))
     = Some (sample_activity [] [sample_rating ''a'' 0 0]
         [sample_comment ''c1'' ''a'' ''hi'' 2, sample_comment ''c2'' ''b'' ''yo'' 0])"
proof -
  let ?s = "sample_state (Some (sample_activity [] [sample_rating ''a'' 0 0]
       [sample_comment ''c1'' ''a'' ''hi'' 0, sample_comment ''c2'' ''b'' ''yo'' 0]))"
  let ?ev = "CommentVoted (sample_comment ''c1'' ''a'' ''hi'' 2)"
  have 1: "state_inv ?s"
    by (simp add: sample_defs state_inv_def one_per_user_def)
  have 2: "vote_keeps_user ?ev ?s"
    by (simp add: sample_defs vote_keeps_user_def)
  have 3: "state_inv (handle_event ?ev ?s)"
    using one_per_user_preserved [OF 1 2] by (rule conjunct1)
  have 4: "activity (handle_event ?ev ?s)
     = Some (sample_activity [] [sample_rating ''a'' 0 0]
         [sample_comment ''c1'' ''a'' ''hi'' 2, sample_comment ''c2'' ''b'' ''yo'' 0])"
    by (simp add: sample_defs listener_defs)
  show ?thesis using 1 2 3 4 by (intro conjI)
qed

text \<open>
  Without the condition on \<^verbatim>\<open>comment_voted\<close> the invariant can be lost: the incoming
  comment has the id of the comment of user \<open>a\<close> and the user id \<open>b\<close>, and afterwards
  user \<open>b\<close> has two comments.
\<close>

theorem one_per_user_vote_counterexample:
  "state_inv (sample_state (Some (sample_activity [] []
       [sample_comment ''c1'' ''a'' ''hi'' 0, sample_comment ''c2'' ''b'' ''yo'' 0]))) \<and>
   \<not> state_inv (handle_event (CommentVoted (sample_comment ''c1'' ''b'' ''hi'' 1))
       (sample_state (Some (sample_activity [] []
          [sample_comment ''c1'' ''a'' ''hi'' 0, sample_comment ''c2'' ''b'' ''yo'' 0]))))"
  by (simp add: sample_defs listener_defs state_inv_def one_per_user_def)

section \<open>The projections\<close>

subsection \<open>Rounding\<close>

text \<open>
  \<open>floor_log2\<close> is the binary exponent, and rounding leaves a binary64 value as it is.
  The remaining lemmas evaluate the rounding on the values of the examples.
\<close>

lemma floor_rat_numeral_div:
  "\<lfloor>(numeral a :: rat) / numeral b\<rfloor> = numeral a div numeral b"
  using floor_divide_of_int_eq [of "numeral a" "numeral b", where ?'a = rat] by simp

lemma ceiling_rat_numeral_div:
  "\<lceil>(numeral a :: rat) / numeral b\<rceil> = - (- numeral a div numeral b)"
  using floor_divide_of_int_eq [of "- numeral a" "numeral b", where ?'a = rat]
  by (simp add: ceiling_def)

lemma pow2_pos: "0 < pow2 e"
  by (simp add: pow2_def)

lemma round_half_even_of_int: "round_half_even (of_int n) = n"
  by (simp add: round_half_even_def)

lemma floor_log2_bounds:
  assumes "0 < a"
  shows "pow2 (floor_log2 a) \<le> a \<and> a < pow2 (floor_log2 a + 1)"
proof (cases "1 \<le> a")
  case True
  let ?n = "\<lfloor>a\<rfloor>"
  have n: "0 < ?n" using True by simp
  from bitlen_bounds [OF n]
  have lo: "2 ^ nat (bitlen ?n - 1) \<le> ?n" and hi: "?n < 2 ^ nat (bitlen ?n)" by simp_all
  have k: "1 \<le> bitlen ?n" using n by (simp add: bitlen_alt_def)
  have fl: "floor_log2 a = bitlen ?n - 1" using True by (simp add: floor_log2_def)
  have "(2 :: rat) ^ nat (bitlen ?n - 1) \<le> a"
    using lo by (simp add: le_floor_iff)
  then have 1: "pow2 (floor_log2 a) \<le> a"
    using k fl by (simp add: pow2_def)
  have "?n + 1 \<le> 2 ^ nat (bitlen ?n)" using hi by simp
  then have "(of_int (?n + 1) :: rat) \<le> of_int (2 ^ nat (bitlen ?n))"
    by (simp only: of_int_le_iff)
  moreover have "a < of_int (?n + 1)" by linarith
  ultimately have 2: "a < pow2 (floor_log2 a + 1)"
    using k fl by (simp add: pow2_def)
  from 1 2 show ?thesis ..
next
  case False
  let ?b = "1 / a"
  let ?m = "\<lceil>?b\<rceil> - 1"
  have b: "1 < ?b" using False assms by simp
  have m: "0 < ?m" using b by simp
  from bitlen_bounds [OF m]
  have lo: "2 ^ nat (bitlen ?m - 1) \<le> ?m" and hi: "?m < 2 ^ nat (bitlen ?m)" by simp_all
  have k: "1 \<le> bitlen ?m" using m by (simp add: bitlen_alt_def)
  have fl: "floor_log2 a = - bitlen ?m" using False by (simp add: floor_log2_def)
  have "\<lceil>?b\<rceil> \<le> 2 ^ nat (bitlen ?m)" using hi by simp
  then have "?b \<le> 2 ^ nat (bitlen ?m)" by (simp add: ceiling_le_iff)
  then have "1 \<le> a * 2 ^ nat (bitlen ?m)"
    using assms by (simp add: field_simps)
  then have 1: "pow2 (floor_log2 a) \<le> a"
    using k fl by (simp add: pow2_def field_simps)
  have "2 ^ nat (bitlen ?m - 1) < \<lceil>?b\<rceil>" using lo by simp
  then have "2 ^ nat (bitlen ?m - 1) < ?b" by (simp add: less_ceiling_iff)
  then have lt: "a * 2 ^ nat (bitlen ?m - 1) < 1"
    using assms by (simp add: field_simps)
  have 2: "a < pow2 (floor_log2 a + 1)"
  proof (cases "bitlen ?m = 1")
    case True
    with lt fl show ?thesis by (simp add: pow2_def)
  next
    case False
    with k have "1 < bitlen ?m" by simp
    then have "nat (- (1 - bitlen ?m)) = nat (bitlen ?m - 1)" by simp
    with lt fl \<open>1 < bitlen ?m\<close> assms show ?thesis
      by (simp add: pow2_def field_simps)
  qed
  from 1 2 show ?thesis ..
qed

lemma round64_representable:
  assumes "representable q"
  shows "round64 q = Fin q"
proof -
  let ?a = "\<bar>q\<bar>" and ?u = "ulp_of \<bar>q\<bar>"
  have u: "0 < ?u" by (simp add: ulp_of_def pow2_pos)
  from assms have q: "q \<noteq> 0" and lt: "?a < pow2 1024"
    and int: "of_int \<lfloor>?a / ?u\<rfloor> = ?a / ?u"
    by (simp_all add: representable_def)
  have n: "round_half_even (?a / ?u) = \<lfloor>?a / ?u\<rfloor>"
    using round_half_even_of_int [of "\<lfloor>?a / ?u\<rfloor>"] int by simp
  have r: "of_int \<lfloor>?a / ?u\<rfloor> * ?u = ?a"
    by (simp only: int) (use u in simp)
  have nz: "\<lfloor>?a / ?u\<rfloor> \<noteq> 0"
  proof
    assume "\<lfloor>?a / ?u\<rfloor> = 0"
    with r have "?a = 0" by simp
    with q show False by simp
  qed
  show ?thesis
    unfolding round64_def Let_def n r using lt nz by auto
qed

lemma num_add_exact:
  "is_double (p + q) \<Longrightarrow> num_add (Fin p) (Fin q) = Fin (p + q)"
  by (auto simp: is_double_def round64_representable)

lemma num_div_exact:
  assumes "0 < n" and "is_double (p / of_nat n)" and "length xs = n"
  shows "num_div (Fin p) (length_js xs) = Fin (p / of_nat n)"
proof (cases "p = 0")
  case True
  with assms(1,3) show ?thesis
    by (simp add: length_js_def num_div_def is_inf_def is_zero_def negative_def signed_zero_def)
next
  case False
  with assms have "representable (p / of_nat n)" by (simp add: is_double_def)
  then have "round64 (p / of_nat n) = Fin (p / of_nat n)" by (rule round64_representable)
  with False assms(1,3) show ?thesis
    by (simp add: length_js_def num_div_def is_inf_def is_zero_def)
qed

lemma foldl_num_add_exact:
  "map f rs = map Fin qs \<Longrightarrow> sums_exact s qs \<Longrightarrow>
     foldl (\<lambda>sum r. num_add sum (f r)) (Fin s) rs = Fin (s + sum_list qs)"
proof (induction qs arbitrary: rs s)
  case Nil
  then show ?case by simp
next
  case (Cons q qs)
  from Cons.prems(1) obtain r rs' where rs: "rs = r # rs'" and r: "f r = Fin q"
    and rest: "map f rs' = map Fin qs"
    by (cases rs) auto
  from Cons.prems(2) have ex: "is_double (s + q)" and more: "sums_exact (s + q) qs" by simp_all
  have "foldl (\<lambda>sum r. num_add sum (f r)) (Fin s) rs
          = foldl (\<lambda>sum r. num_add sum (f r)) (Fin (s + q)) rs'"
    using rs r num_add_exact [OF ex] by simp
  also have "\<dots> = Fin (s + q + sum_list qs)"
    using rest more by (rule Cons.IH)
  finally show ?case by (simp add: add.assoc)
qed

lemma round64_pos_eval:
  assumes "0 < q" and "floor_log2 q = e" and "- 1022 \<le> e"
    and "round_half_even (q / pow2 (e - 52)) = n" and "0 < n"
    and "of_int n * pow2 (e - 52) < pow2 1024"
  shows "round64 q = Fin (of_int n * pow2 (e - 52))"
proof -
  have a: "\<bar>q\<bar> = q" using assms(1) by simp
  have u: "ulp_of q = pow2 (e - 52)" using assms(2,3) by (simp add: ulp_of_def max_def)
  show ?thesis
    unfolding round64_def Let_def a u assms(4) using assms(1,5,6) by simp
qed

lemma representableI:
  assumes "0 < q" and "floor_log2 q = e" and "- 1022 \<le> e"
    and "q / pow2 (e - 52) = of_int n" and "q < pow2 1024"
  shows "representable q"
proof -
  have a: "\<bar>q\<bar> = q" using assms(1) by simp
  have u: "ulp_of q = pow2 (e - 52)" using assms(2,3) by (simp add: ulp_of_def max_def)
  show ?thesis
    unfolding representable_def a u assms(4) using assms(1,5) by simp
qed

lemma bitlen_small: "bitlen 1 = 1" "bitlen 2 = 2" "bitlen 3 = 2" "bitlen 4 = 3" "bitlen 9 = 4"
  by (simp_all add: compute_bitlen)

lemmas number_eval =
  floor_log2_def pow2_def round_half_even_def Let_def bitlen_small
  floor_rat_numeral_div ceiling_rat_numeral_div

lemma double_one_two: "is_double 1" "is_double 2"
proof -
  have "representable 1"
    by (rule representableI [where e = 0 and n = "2 ^ 52"]) (simp_all add: number_eval)
  then show "is_double 1" by (simp add: is_double_def)
  have "representable 2"
    by (rule representableI [where e = 1 and n = "2 ^ 52"]) (simp_all add: number_eval)
  then show "is_double 2" by (simp add: is_double_def)
qed

lemma round64_tenth: "round64 (1 / 10) = Fin double_tenth"
proof -
  have "round64 (1 / 10) = Fin (of_int 7205759403792794 * pow2 (- 4 - 52))"
    by (rule round64_pos_eval) (simp_all add: number_eval)
  then show ?thesis by (simp add: pow2_def double_tenth_def)
qed

lemma double_tenth_sums:
  "is_double double_tenth" "is_double (double_tenth + double_tenth)"
proof -
  have "representable double_tenth"
    unfolding double_tenth_def
    by (rule representableI [where e = "- 4" and n = 7205759403792794]) (simp_all add: number_eval)
  then show "is_double double_tenth" by (simp add: is_double_def)
  have "representable (double_tenth + double_tenth)"
    unfolding double_tenth_def
    by (rule representableI [where e = "- 3" and n = 7205759403792794]) (simp_all add: number_eval)
  then show "is_double (double_tenth + double_tenth)" by (simp add: is_double_def)
qed

lemma round64_three_tenths:
  "round64 (double_tenth + double_tenth + double_tenth) = Fin (5404319552844596 / 18014398509481984)"
proof -
  have "round64 (double_tenth + double_tenth + double_tenth)
          = Fin (of_int 5404319552844596 * pow2 (- 2 - 52))"
    unfolding double_tenth_def
    by (rule round64_pos_eval) (simp_all add: number_eval)
  then show ?thesis by (simp add: pow2_def)
qed

lemma round64_mean_tenth:
  "round64 (5404319552844596 / 18014398509481984 / 3) = Fin (7205759403792795 / 72057594037927936)"
proof -
  have "round64 (5404319552844596 / 18014398509481984 / 3)
          = Fin (of_int 7205759403792795 * pow2 (- 4 - 52))"
    by (rule round64_pos_eval) (simp_all add: number_eval)
  then show ?thesis by (simp add: pow2_def)
qed

lemma average_position_Some:
  "ratings a \<noteq> [] \<Longrightarrow>
     averagePosition (stats a) =
       Some \<lparr> pos_x = num_div
                        (foldl (\<lambda>sum r. num_add sum (pos_x (position r))) (Fin 0) (ratings a))
                        (length_js (ratings a)),
              pos_y = num_div
                        (foldl (\<lambda>sum r. num_add sum (pos_y (position r))) (Fin 0) (ratings a))
                        (length_js (ratings a)) \<rparr>"
  by (simp add: stats_def)

lemma average_position_exact:
  assumes "ratings a \<noteq> []"
    and "map (\<lambda>r. pos_x (position r)) (ratings a) = map Fin xs"
    and "map (\<lambda>r. pos_y (position r)) (ratings a) = map Fin ys"
    and "sums_exact 0 xs" and "sums_exact 0 ys"
    and "is_double (sum_list xs / of_nat (length xs))"
    and "is_double (sum_list ys / of_nat (length ys))"
  shows "averagePosition (stats a) =
           Some \<lparr> pos_x = Fin (sum_list xs / of_nat (length xs)),
                  pos_y = Fin (sum_list ys / of_nat (length ys)) \<rparr>"
proof -
  have lx: "length (ratings a) = length xs"
    using arg_cong [OF assms(2), of length] by simp
  have ly: "length (ratings a) = length ys"
    using arg_cong [OF assms(3), of length] by simp
  have n: "0 < length xs" "0 < length ys"
    using assms(1) lx ly by (metis length_greater_0_conv)+
  have sx: "foldl (\<lambda>sum r. num_add sum (pos_x (position r))) (Fin 0) (ratings a) = Fin (sum_list xs)"
    using foldl_num_add_exact [OF assms(2) assms(4)] by simp
  have sy: "foldl (\<lambda>sum r. num_add sum (pos_y (position r))) (Fin 0) (ratings a) = Fin (sum_list ys)"
    using foldl_num_add_exact [OF assms(3) assms(5)] by simp
  have dx: "num_div (Fin (sum_list xs)) (length_js (ratings a)) = Fin (sum_list xs / of_nat (length xs))"
    using n(1) assms(6) lx by (rule num_div_exact)
  have dy: "num_div (Fin (sum_list ys)) (length_js (ratings a)) = Fin (sum_list ys / of_nat (length ys))"
    using n(2) assms(7) ly by (rule num_div_exact)
  show ?thesis
    unfolding average_position_Some [OF assms(1)] sx sy dx dy ..
qed

text \<open>
  C6. The mean position of the statistics is \<^verbatim>\<open>null\<close> exactly when there is no rating:
  the division is made only when the number of ratings is positive. Otherwise each
  coordinate is the sum of that coordinate over all ratings, added up from 0 in the order
  of the list in the arithmetic of numbers, divided by the number of ratings. It is the
  componentwise arithmetic mean whenever the coordinates are finite and neither a partial
  sum nor the quotient has to be rounded. For ratings at \<open>(0,0)\<close> and \<open>(2,2)\<close> the mean
  is \<open>(1,1)\<close>.
\<close>

theorem average_position_mean:
  "(averagePosition (stats a) = None \<longleftrightarrow> length (ratings a) = 0) \<and>
   (ratings a \<noteq> [] \<longrightarrow>
      averagePosition (stats a) =
        Some \<lparr> pos_x = num_div
                         (foldl (\<lambda>sum r. num_add sum (pos_x (position r))) (Fin 0) (ratings a))
                         (length_js (ratings a)),
               pos_y = num_div
                         (foldl (\<lambda>sum r. num_add sum (pos_y (position r))) (Fin 0) (ratings a))
                         (length_js (ratings a)) \<rparr>) \<and>
   (\<forall>xs ys.
      ratings a \<noteq> [] \<and>
      map (\<lambda>r. pos_x (position r)) (ratings a) = map Fin xs \<and>
      map (\<lambda>r. pos_y (position r)) (ratings a) = map Fin ys \<and>
      sums_exact 0 xs \<and> sums_exact 0 ys \<and>
      is_double (sum_list xs / of_nat (length xs)) \<and>
      is_double (sum_list ys / of_nat (length ys)) \<longrightarrow>
      averagePosition (stats a) =
        Some \<lparr> pos_x = Fin (sum_list xs / of_nat (length xs)),
               pos_y = Fin (sum_list ys / of_nat (length ys)) \<rparr>) \<and>
   (map position (ratings a) = [\<lparr> pos_x = Fin 0, pos_y = Fin 0 \<rparr>, \<lparr> pos_x = Fin 2, pos_y = Fin 2 \<rparr>]
      \<longrightarrow> averagePosition (stats a) = Some \<lparr> pos_x = Fin 1, pos_y = Fin 1 \<rparr>)"
proof (intro conjI allI impI)
  show "averagePosition (stats a) = None \<longleftrightarrow> length (ratings a) = 0"
    by (simp add: stats_def)
next
  assume "ratings a \<noteq> []"
  then show "averagePosition (stats a) =
        Some \<lparr> pos_x = num_div
                         (foldl (\<lambda>sum r. num_add sum (pos_x (position r))) (Fin 0) (ratings a))
                         (length_js (ratings a)),
               pos_y = num_div
                         (foldl (\<lambda>sum r. num_add sum (pos_y (position r))) (Fin 0) (ratings a))
                         (length_js (ratings a)) \<rparr>"
    by (rule average_position_Some)
next
  fix xs ys
  assume "ratings a \<noteq> [] \<and>
      map (\<lambda>r. pos_x (position r)) (ratings a) = map Fin xs \<and>
      map (\<lambda>r. pos_y (position r)) (ratings a) = map Fin ys \<and>
      sums_exact 0 xs \<and> sums_exact 0 ys \<and>
      is_double (sum_list xs / of_nat (length xs)) \<and>
      is_double (sum_list ys / of_nat (length ys))"
  then show "averagePosition (stats a) =
        Some \<lparr> pos_x = Fin (sum_list xs / of_nat (length xs)),
               pos_y = Fin (sum_list ys / of_nat (length ys)) \<rparr>"
    using average_position_exact [of a xs ys] by blast
next
  assume e: "map position (ratings a) = [\<lparr> pos_x = Fin 0, pos_y = Fin 0 \<rparr>, \<lparr> pos_x = Fin 2, pos_y = Fin 2 \<rparr>]"
  then obtain r1 r2 where rs: "ratings a = [r1, r2]"
    and p: "position r1 = \<lparr> pos_x = Fin 0, pos_y = Fin 0 \<rparr>" "position r2 = \<lparr> pos_x = Fin 2, pos_y = Fin 2 \<rparr>"
    by auto
  have ex: "sums_exact 0 [0, 2]" "is_double (sum_list [0, 2] / of_nat (length [0 :: rat, 2]))"
    using double_one_two by (simp_all add: is_double_def)
  have "averagePosition (stats a) =
           Some \<lparr> pos_x = Fin (sum_list [0, 2] / of_nat (length [0 :: rat, 2])),
                  pos_y = Fin (sum_list [0, 2] / of_nat (length [0 :: rat, 2])) \<rparr>"
    by (rule average_position_exact) (use rs p ex in simp_all)
  then show "averagePosition (stats a) = Some \<lparr> pos_x = Fin 1, pos_y = Fin 1 \<rparr>"
    by simp
qed

theorem average_position_mean_witness:
  "averagePosition (stats (sample_activity [] [] [])) = None \<and>
   sums_exact 0 [0, 2] \<and> is_double (sum_list [0, 2] / of_nat (length [0 :: rat, 2])) \<and>
   averagePosition (stats (sample_activity [] [sample_rating ''a'' 0 0, sample_rating ''b'' 2 2] []))
     = Some \<lparr> pos_x = Fin 1, pos_y = Fin 1 \<rparr>"
proof -
  have 1: "averagePosition (stats (sample_activity [] [] [])) = None"
    using average_position_mean [of "sample_activity [] [] []"]
    by (simp add: sample_activity_def)
  have 2: "sums_exact 0 [0, 2]" "is_double (sum_list [0, 2] / of_nat (length [0 :: rat, 2]))"
    using double_one_two by (simp_all add: is_double_def)
  let ?A = "sample_activity [] [sample_rating ''a'' 0 0, sample_rating ''b'' 2 2] []"
  have pos: "map position (ratings ?A)
               = [\<lparr> pos_x = Fin 0, pos_y = Fin 0 \<rparr>, \<lparr> pos_x = Fin 2, pos_y = Fin 2 \<rparr>]"
    by (simp add: sample_activity_def sample_rating_def)
  have 3: "averagePosition (stats ?A) = Some \<lparr> pos_x = Fin 1, pos_y = Fin 1 \<rparr>"
    by (rule mp [OF average_position_mean
          [of ?A, THEN conjunct2, THEN conjunct2, THEN conjunct2] pos])
  show ?thesis using 1 2 3 by (intro conjI)
qed

text \<open>
  The mean position is not the arithmetic mean for all ratings: three ratings at the
  number \<open>0.1\<close> in both coordinates have the arithmetic mean \<open>0.1\<close>, and the statistics
  give the next number above it, \<open>0.10000000000000002\<close>, since the sum of the three is
  rounded.
\<close>

theorem average_position_exact_mean_counterexample:
  "round64 (1 / 10) = Fin double_tenth \<and>
   averagePosition (stats (sample_activity []
       [sample_rating ''a'' double_tenth double_tenth,
        sample_rating ''b'' double_tenth double_tenth,
        sample_rating ''c'' double_tenth double_tenth] []))
     = Some \<lparr> pos_x = Fin (7205759403792795 / 72057594037927936),
              pos_y = Fin (7205759403792795 / 72057594037927936) \<rparr> \<and>
   (double_tenth + double_tenth + double_tenth) / 3 = double_tenth \<and>
   7205759403792795 / 72057594037927936 \<noteq> double_tenth"
proof -
  let ?d = double_tenth
  have s1: "num_add (Fin 0) (Fin ?d) = Fin ?d"
    using num_add_exact [of 0 ?d] double_tenth_sums(1) by simp
  have s2: "num_add (Fin ?d) (Fin ?d) = Fin (?d + ?d)"
    using double_tenth_sums(2) by (rule num_add_exact)
  have nz: "?d + ?d + ?d \<noteq> 0" by (simp add: double_tenth_def)
  have s3: "num_add (Fin (?d + ?d)) (Fin ?d) = Fin (5404319552844596 / 18014398509481984)"
    using nz round64_three_tenths by simp
  have q: "num_div (Fin (5404319552844596 / 18014398509481984)) (Fin 3)
             = Fin (7205759403792795 / 72057594037927936)"
    using round64_mean_tenth by (simp add: num_div_def is_inf_def is_zero_def)
  let ?r1 = "sample_rating ''a'' ?d ?d" and ?r2 = "sample_rating ''b'' ?d ?d"
    and ?r3 = "sample_rating ''c'' ?d ?d"
  let ?A = "sample_activity [] [?r1, ?r2, ?r3] []"
  have rs: "ratings ?A = [?r1, ?r2, ?r3]" by (simp add: sample_activity_def)
  have px: "pos_x (position ?r1) = Fin ?d" "pos_x (position ?r2) = Fin ?d"
    "pos_x (position ?r3) = Fin ?d"
    by (simp_all add: sample_rating_def)
  have py: "pos_y (position ?r1) = Fin ?d" "pos_y (position ?r2) = Fin ?d"
    "pos_y (position ?r3) = Fin ?d"
    by (simp_all add: sample_rating_def)
  have len: "length_js [?r1, ?r2, ?r3] = Fin 3" by (simp add: length_js_def)
  have fx: "foldl (\<lambda>sum r. num_add sum (pos_x (position r))) (Fin 0) [?r1, ?r2, ?r3]
              = Fin (5404319552844596 / 18014398509481984)"
    by (simp only: foldl.simps px s1 s2 s3)
  have fy: "foldl (\<lambda>sum r. num_add sum (pos_y (position r))) (Fin 0) [?r1, ?r2, ?r3]
              = Fin (5404319552844596 / 18014398509481984)"
    by (simp only: foldl.simps py s1 s2 s3)
  have ne': "ratings ?A \<noteq> []" by (simp add: rs)
  have avg: "averagePosition (stats ?A)
     = Some \<lparr> pos_x = Fin (7205759403792795 / 72057594037927936),
              pos_y = Fin (7205759403792795 / 72057594037927936) \<rparr>"
    unfolding average_position_Some [OF ne'] rs fx fy len q ..
  have m: "(?d + ?d + ?d) / 3 = ?d" by simp
  have ne: "7205759403792795 / 72057594037927936 \<noteq> ?d" by (simp add: double_tenth_def)
  show ?thesis using round64_tenth avg m ne by (intro conjI)
qed

lemma find_scan_found:
  "\<exists>x\<in>set xs. P x \<Longrightarrow>
     find_scan P xs = (List.find P xs, length (takeWhile (\<lambda>x. \<not> P x) xs) + 1)"
proof (induction xs)
  case Nil
  then show ?case by simp
next
  case (Cons y ys)
  show ?case
  proof (cases "P y")
    case True
    then show ?thesis by simp
  next
    case False
    with Cons.prems have "\<exists>x\<in>set ys. P x" by auto
    from Cons.IH [OF this] False show ?thesis by simp
  qed
qed

lemma find_scan_notfound:
  "\<forall>x\<in>set xs. \<not> P x \<Longrightarrow> find_scan P xs = (None, length xs)"
  by (induction xs) simp_all

lemma find_js_find: "find_js P xs = List.find P xs"
proof (cases "\<exists>x\<in>set xs. P x")
  case True
  then show ?thesis by (simp add: find_js_def find_scan_found)
next
  case False
  then have "List.find P xs = None" by (simp add: find_None_iff)
  with False show ?thesis by (simp add: find_js_def find_scan_notfound)
qed

lemma scanned_sample_many:
  "handleMapDotClick_scanned (sample_activity [] [] (sample_many_comments n)) ''u'' = n + 1"
proof -
  let ?P = "\<lambda>c. comment_userId c = ''u''"
  have ex: "\<exists>x\<in>set (sample_many_comments n). ?P x"
    by (simp add: sample_many_comments_def sample_comment_def)
  have "takeWhile (\<lambda>x. \<not> ?P x) (sample_many_comments n)
          = replicate n (sample_comment ''c0'' ''other'' ''x'' 0)"
    by (simp add: sample_many_comments_def sample_comment_def takeWhile_append)
  then show ?thesis
    by (simp add: handleMapDotClick_scanned_def sample_activity_def find_scan_found [OF ex])
qed

text \<open>
  C9. The handlers of the map dots resolve a user id to its comment with \<^verbatim>\<open>find\<close>, a
  scan of the comments from the front: the result is the first comment of that user, and
  the scan inspects every comment up to and including it, or all of them when the user
  has no comment. The handlers keep no index keyed by user id, and look up no rating.
\<close>

theorem map_dot_lookup_linear_scan:
  "handleMapDotClick a uid v =
     (case List.find (\<lambda>c. comment_userId c = uid) (comments a) of
        None \<Rightarrow> v
      | Some c \<Rightarrow> if comment_id c \<in> set (visibleCommentIds v)
                  then v\<lparr>selectedCommentId := Some (comment_id c)\<rparr> else v) \<and>
   handleMobileMapDotTap a uid v =
     (case List.find (\<lambda>c. comment_userId c = uid) (comments a) of
        None \<Rightarrow> v
      | Some c \<Rightarrow> if comment_id c \<in> set (visibleCommentIds v)
                  then v\<lparr>mobilePopupComment := Some (comment_id c)\<rparr> else v) \<and>
   handleMapDotClick_scanned a uid =
     (if \<exists>c\<in>set (comments a). comment_userId c = uid
      then length (takeWhile (\<lambda>c. comment_userId c \<noteq> uid) (comments a)) + 1
      else length (comments a))"
proof (intro conjI)
  show "handleMapDotClick a uid v =
     (case List.find (\<lambda>c. comment_userId c = uid) (comments a) of
        None \<Rightarrow> v
      | Some c \<Rightarrow> if comment_id c \<in> set (visibleCommentIds v)
                  then v\<lparr>selectedCommentId := Some (comment_id c)\<rparr> else v)"
    by (simp add: handleMapDotClick_def find_js_find includes_js_def split: option.split)
  show "handleMobileMapDotTap a uid v =
     (case List.find (\<lambda>c. comment_userId c = uid) (comments a) of
        None \<Rightarrow> v
      | Some c \<Rightarrow> if comment_id c \<in> set (visibleCommentIds v)
                  then v\<lparr>mobilePopupComment := Some (comment_id c)\<rparr> else v)"
    by (simp add: handleMobileMapDotTap_def find_js_find includes_js_def split: option.split)
  show "handleMapDotClick_scanned a uid =
     (if \<exists>c\<in>set (comments a). comment_userId c = uid
      then length (takeWhile (\<lambda>c. comment_userId c \<noteq> uid) (comments a)) + 1
      else length (comments a))"
  proof (cases "\<exists>c\<in>set (comments a). comment_userId c = uid")
    case True
    then show ?thesis
      by (simp only: handleMapDotClick_scanned_def find_scan_found [OF True] if_True snd_conv)
  next
    case False
    then have "\<forall>c\<in>set (comments a). \<not> comment_userId c = uid" by simp
    from find_scan_notfound [OF this] False show ?thesis
      by (simp add: handleMapDotClick_scanned_def)
  qed
qed

theorem map_dot_lookup_linear_scan_witness:
  "handleMapDotClick_scanned
     (sample_activity [] [] [sample_comment ''c1'' ''a'' ''hi'' 0, sample_comment ''c2'' ''b'' ''yo'' 0,
        sample_comment ''c3'' ''c'' ''ok'' 0]) ''c'' = 3 \<and>
   handleMapDotClick_scanned
     (sample_activity [] [] [sample_comment ''c1'' ''a'' ''hi'' 0, sample_comment ''c2'' ''b'' ''yo'' 0,
        sample_comment ''c3'' ''c'' ''ok'' 0]) ''zz'' = 3 \<and>
   handleMapDotClick
     (sample_activity [] [] [sample_comment ''c1'' ''a'' ''hi'' 0, sample_comment ''c2'' ''b'' ''yo'' 0,
        sample_comment ''c3'' ''c'' ''ok'' 0]) ''b'' (sample_view\<lparr>visibleCommentIds := [''c2'']\<rparr>)
     = sample_view\<lparr>visibleCommentIds := [''c2''], selectedCommentId := Some ''c2''\<rparr>"
  using map_dot_lookup_linear_scan
    [of "sample_activity [] [] [sample_comment ''c1'' ''a'' ''hi'' 0, sample_comment ''c2'' ''b'' ''yo'' 0,
        sample_comment ''c3'' ''c'' ''ok'' 0]" "''c''" sample_view]
  by (simp add: handleMapDotClick_scanned_def handleMapDotClick_def find_js_def includes_js_def
        sample_activity_def sample_comment_def sample_view_def)

text \<open>
  The lookup is not constant-time: on 10000 comments with the user's comment last the
  scan inspects 10000 comments, and on 20000 comments it inspects 20000.
\<close>

theorem map_dot_lookup_constant_counterexample:
  "length (comments (sample_activity [] [] (sample_many_comments 9999))) = 10000 \<and>
   handleMapDotClick_scanned (sample_activity [] [] (sample_many_comments 9999)) ''u'' = 10000 \<and>
   length (comments (sample_activity [] [] (sample_many_comments 19999))) = 20000 \<and>
   handleMapDotClick_scanned (sample_activity [] [] (sample_many_comments 19999)) ''u'' = 20000"
  by (simp add: scanned_sample_many) (simp add: sample_activity_def sample_many_comments_def)

section \<open>The protection of the admin routes\<close>

text \<open>
  C10. For a request whose path starts with \<^verbatim>\<open>/admin\<close>, when the first label of the
  host differs from the configured admin subdomain, the host is neither
  \<^verbatim>\<open>admin.localhost\<close> nor \<^verbatim>\<open>admin.localhost:3000\<close>, and the host does not contain
  \<^verbatim>\<open>localhost\<close>, the middleware answers with status 404.
\<close>

theorem middleware_admin_404:
  assumes "startsWith (pathname req) ''/admin''"
    and "subdomain_of req \<noteq> Some (adminSubdomain env)"
    and "hostname_of req \<noteq> ''admin.localhost:3000''"
    and "hostname_of req \<noteq> ''admin.localhost''"
    and "\<not> includes_str (hostname_of req) ''localhost''"
  shows "middleware env req = Status 404"
  using assms
  by (simp add: middleware_def isAdminRoute_def isAdminSubdomain_def isLocalAdmin_def isLocalhost_def)

theorem middleware_admin_404_witness:
  "startsWith (pathname \<lparr> host = Some ''example.com'', pathname = ''/admin/users'' \<rparr>) ''/admin'' \<and>
   subdomain_of \<lparr> host = Some ''example.com'', pathname = ''/admin/users'' \<rparr> = Some ''example'' \<and>
   adminSubdomain None = ''admin'' \<and>
   hostname_of \<lparr> host = Some ''example.com'', pathname = ''/admin/users'' \<rparr> = ''example.com'' \<and>
   \<not> includes_str ''example.com'' ''localhost'' \<and>
   middleware None \<lparr> host = Some ''example.com'', pathname = ''/admin/users'' \<rparr> = Status 404"
  using middleware_admin_404 [of "\<lparr> host = Some ''example.com'', pathname = ''/admin/users'' \<rparr>" None]
  by (simp add: startsWith_def subdomain_of_def hostname_of_def or_default_def adminSubdomain_def)

end
